theory Spec2Isabelle
  imports Complex_Main "HOL-Library.Sublist" "HOL-Library.AList"
begin


section \<open>Strings and number formatting\<close>

text \<open>
  Python strings are modelled as \<open>string\<close>. The format specification
  \<^verbatim>\<open>f"{idx:0{padding}d}"\<close> of a non-negative integer is the decimal numeral of the
  number, padded on the left with zeros up to the minimal width \<open>padding\<close>.
\<close>

definition digit_char :: "nat \<Rightarrow> char" where
  "digit_char d = ''0123456789'' ! d"

fun str_nat :: "nat \<Rightarrow> string" where
  "str_nat n = (if n < 10 then [digit_char n] else str_nat (n div 10) @ [digit_char (n mod 10)])"

declare str_nat.simps [simp del]

definition format_0d :: "nat \<Rightarrow> nat \<Rightarrow> string" where
  "format_0d width n = replicate (width - length (str_nat n)) (CHR ''0'') @ str_nat n"

text \<open>\<^verbatim>\<open>needle in haystack\<close> on Python strings: substring containment.\<close>

fun str_contains :: "string \<Rightarrow> string \<Rightarrow> bool" where
  "str_contains needle [] = (needle = [])"
| "str_contains needle (c # cs) = (prefix needle (c # cs) \<or> str_contains needle cs)"

text \<open>\<^verbatim>\<open>enumerate(xs, 1)\<close>.\<close>

definition enumerate1 :: "'a list \<Rightarrow> (nat \<times> 'a) list" where
  "enumerate1 xs = zip [1 ..< Suc (length xs)] xs"

text \<open>\<^verbatim>\<open>s.split(sep)\<close> for a one-character separator.\<close>

fun str_split :: "char \<Rightarrow> string \<Rightarrow> string list" where
  "str_split sep [] = [[]]"
| "str_split sep (c # cs) =
     (if c = sep then [] # str_split sep cs
      else (case str_split sep cs of
              [] \<Rightarrow> [[c]]
            | piece # pieces \<Rightarrow> (c # piece) # pieces))"

text \<open>\<^verbatim>\<open>s.lower()\<close>, on the ASCII letters.\<close>

definition char_lower :: "char \<Rightarrow> char" where
  "char_lower c =
     (case map_of (zip ''ABCDEFGHIJKLMNOPQRSTUVWXYZ'' ''abcdefghijklmnopqrstuvwxyz'') c of
        Some l \<Rightarrow> l
      | None \<Rightarrow> c)"

definition str_lower :: "string \<Rightarrow> string" where
  "str_lower s = map char_lower s"

definition str_endswith :: "string \<Rightarrow> string \<Rightarrow> bool" where
  "str_endswith s suf = suffix suf s"

section \<open>Paths\<close>

text \<open>
  The functions of \<^verbatim>\<open>os.path\<close> the code calls, for POSIX paths, as functions on strings.
\<close>

type_synonym path = "string list"

definition is_absolute :: "string \<Rightarrow> bool" where
  "is_absolute p = (p \<noteq> [] \<and> hd p = CHR ''/'')"

definition os_path_join :: "string \<Rightarrow> string \<Rightarrow> string" where
  "os_path_join a b =
     (if is_absolute b then b
      else if a = [] \<or> last a = CHR ''/'' then a @ b
      else a @ ''/'' @ b)"

definition os_path_basename :: "string \<Rightarrow> string" where
  "os_path_basename p = rev (takeWhile (\<lambda>c. c \<noteq> CHR ''/'') (rev p))"

definition os_path_dirname :: "string \<Rightarrow> string" where
  "os_path_dirname p =
     (let head = rev (dropWhile (\<lambda>c. c \<noteq> CHR ''/'') (rev p))
      in if head \<noteq> [] \<and> \<not> list_all (\<lambda>c. c = CHR ''/'') head
         then rev (dropWhile (\<lambda>c. c = CHR ''/'') (rev head))
         else head)"

text \<open>
  \<^verbatim>\<open>os.path.splitext(p)[1]\<close>: the extension starts at the last dot of the last component,
  unless only dots come before it in that component.
\<close>

definition os_path_splitext_ext :: "string \<Rightarrow> string" where
  "os_path_splitext_ext p =
     (let name = os_path_basename p
      in if CHR ''.'' \<notin> set name then []
         else
           (let stem = rev (tl (dropWhile (\<lambda>c. c \<noteq> CHR ''.'') (rev name)));
                ext = CHR ''.'' # rev (takeWhile (\<lambda>c. c \<noteq> CHR ''.'') (rev name))
            in if list_all (\<lambda>c. c = CHR ''.'') stem then [] else ext))"

text \<open>\<^verbatim>\<open>sep.join(parts)\<close>.\<close>

fun str_join :: "string \<Rightarrow> string list \<Rightarrow> string" where
  "str_join sep [] = []"
| "str_join sep [x] = x"
| "str_join sep (x # y # ys) = x @ sep @ str_join sep (y # ys)"

text \<open>
  \<^verbatim>\<open>os.path.normpath\<close>: empty components and \<open>.\<close> are dropped, \<open>..\<close> drops the component
  before it (at the root it is dropped itself, at the start of a relative path it is
  kept); exactly two leading slashes are kept, three or more become one.
\<close>

definition initial_slashes :: "string \<Rightarrow> nat" where
  "initial_slashes p =
     (if \<not> is_absolute p then 0
      else if prefix ''//'' p \<and> \<not> prefix ''///'' p then 2
      else 1)"

definition norm_comp :: "nat \<Rightarrow> string list \<Rightarrow> string \<Rightarrow> string list" where
  "norm_comp slashes new_comps c =
     (if c = [] \<or> c = ''.'' then new_comps
      else if c \<noteq> ''..'' \<or> (slashes = 0 \<and> new_comps = []) \<or>
              (new_comps \<noteq> [] \<and> last new_comps = ''..'')
      then new_comps @ [c]
      else butlast new_comps)"

definition os_path_normpath :: "string \<Rightarrow> string" where
  "os_path_normpath p =
     (if p = [] then ''.''
      else
        (let slashes = initial_slashes p;
             comps = foldl (norm_comp slashes) [] (str_split (CHR ''/'') p);
             joined = replicate slashes (CHR ''/'') @ str_join ''/'' comps
         in if joined = [] then ''.'' else joined))"

text \<open>
  \<^verbatim>\<open>os.path.abspath\<close>: a relative path is joined to the working directory, which is kept
  as the list of its components.
\<close>

definition os_getcwd :: "path \<Rightarrow> string" where
  "os_getcwd cwd = ''/'' @ str_join ''/'' cwd"

definition os_path_abspath :: "path \<Rightarrow> string \<Rightarrow> string" where
  "os_path_abspath cwd p =
     os_path_normpath (if is_absolute p then p else os_path_join (os_getcwd cwd) p)"

text \<open>The names a directory entry can have, and the components of a path string.\<close>

definition valid_name :: "string \<Rightarrow> bool" where
  "valid_name n = (n \<noteq> [] \<and> n \<noteq> ''.'' \<and> n \<noteq> ''..'' \<and> CHR ''/'' \<notin> set n)"

definition components :: "string \<Rightarrow> string list" where
  "components s = filter (\<lambda>c. c \<noteq> []) (str_split (CHR ''/'') s)"

section \<open>The file system\<close>

text \<open>
  The file system the processor works on. Every entry is listed under the list of names
  that leads to it from the root: a directory, or a file that names an inode; the
  contents are kept per inode, so that hard links share them. The root directory always
  exists; there are no symbolic links. The functions below are the calls of \<^verbatim>\<open>os\<close>,
  \<^verbatim>\<open>os.path\<close> and \<^verbatim>\<open>shutil\<close> the code makes, each with the errors it raises as values.
\<close>

datatype node = Dir | File nat

record filesystem =
  cwd :: path
  nodes :: "(path \<times> node) list"
  store :: "nat \<rightharpoonup> string"
  next_inode :: nat
  hardlinks_supported :: bool

datatype os_error =
    FileNotFoundError
  | FileExistsError
  | NotADirectoryError
  | IsADirectoryError
  | PermissionError
  | SameFileError
  | OSError

definition node_at :: "filesystem \<Rightarrow> path \<Rightarrow> node option" where
  "node_at fs p = (if p = [] then Some Dir else map_of (nodes fs) p)"

text \<open>
  The way the system reads a path: component by component, from the root or from the
  working directory. Every component is looked up in a directory that exists, so that
  \<^verbatim>\<open>dl/missing/../a.mp3\<close> names nothing when \<^verbatim>\<open>dl/missing\<close> does not exist; \<open>.\<close> stays,
  \<open>..\<close> goes to the parent. The entry the last component names need not exist.
\<close>

fun walk :: "filesystem \<Rightarrow> path \<Rightarrow> string list \<Rightarrow> os_error + path" where
  "walk fs cur [] = Inr cur"
| "walk fs cur (c # cs) =
     (case node_at fs cur of
        None \<Rightarrow> Inl FileNotFoundError
      | Some (File i) \<Rightarrow> Inl NotADirectoryError
      | Some Dir \<Rightarrow>
          walk fs (if c = ''.'' then cur else if c = ''..'' then butlast cur else cur @ [c]) cs)"

definition locate :: "filesystem \<Rightarrow> string \<Rightarrow> os_error + path" where
  "locate fs s =
     (if s = [] then Inl FileNotFoundError
      else walk fs (if is_absolute s then [] else cwd fs) (components s))"

text \<open>A path that ends with a slash names a directory or nothing.\<close>

definition resolve :: "filesystem \<Rightarrow> string \<Rightarrow> os_error + path" where
  "resolve fs s =
     (case locate fs s of
        Inl e \<Rightarrow> Inl e
      | Inr p \<Rightarrow>
          if last s = CHR ''/'' \<and> node_at fs p \<noteq> Some Dir
          then Inl (if node_at fs p = None then FileNotFoundError else NotADirectoryError)
          else Inr p)"

text \<open>The entry a path string names, if any.\<close>

definition lookup :: "filesystem \<Rightarrow> string \<Rightarrow> node option" where
  "lookup fs s = (case resolve fs s of Inl e \<Rightarrow> None | Inr p \<Rightarrow> node_at fs p)"

definition os_path_isdir :: "filesystem \<Rightarrow> string \<Rightarrow> bool" where
  "os_path_isdir fs s = (lookup fs s = Some Dir)"

definition os_path_exists :: "filesystem \<Rightarrow> string \<Rightarrow> bool" where
  "os_path_exists fs s = (lookup fs s \<noteq> None)"

definition file_content :: "filesystem \<Rightarrow> string \<Rightarrow> string option" where
  "file_content fs s = (case lookup fs s of Some (File i) \<Rightarrow> store fs i | _ \<Rightarrow> None)"

definition set_node :: "path \<Rightarrow> node \<Rightarrow> filesystem \<Rightarrow> filesystem" where
  "set_node p n fs = fs\<lparr>nodes := AList.update p n (nodes fs)\<rparr>"

definition del_node :: "path \<Rightarrow> filesystem \<Rightarrow> filesystem" where
  "del_node p fs = fs\<lparr>nodes := AList.delete p (nodes fs)\<rparr>"

text \<open>The entries of a directory, by name, in the order the system lists them.\<close>

definition scandir :: "filesystem \<Rightarrow> path \<Rightarrow> (string \<times> node) list" where
  "scandir fs p =
     map (\<lambda>(q, n). (last q, n))
       (filter (\<lambda>(q, n). q \<noteq> [] \<and> butlast q = p \<and> valid_name (last q)) (nodes fs))"

definition subdir_names :: "filesystem \<Rightarrow> path \<Rightarrow> string list" where
  "subdir_names fs p = map fst (filter (\<lambda>(name, n). n = Dir) (scandir fs p))"

definition file_names :: "filesystem \<Rightarrow> path \<Rightarrow> string list" where
  "file_names fs p = map fst (filter (\<lambda>(name, n). n \<noteq> Dir) (scandir fs p))"

text \<open>\<^verbatim>\<open>os.mkdir(path)\<close>; a slash at the end of the path is allowed.\<close>

definition os_mkdir :: "string \<Rightarrow> filesystem \<Rightarrow> os_error + filesystem" where
  "os_mkdir s fs =
     (case locate fs s of
        Inl e \<Rightarrow> Inl e
      | Inr p \<Rightarrow>
          (case node_at fs p of
             Some n \<Rightarrow> Inl FileExistsError
           | None \<Rightarrow> Inr (set_node p Dir fs)))"

text \<open>
  \<^verbatim>\<open>os.makedirs(name, exist_ok=True)\<close>, as the library defines it: the name is split into
  head and tail (once more when the tail is empty); a head that does not exist is made
  first, by the function itself, and a \<^verbatim>\<open>FileExistsError\<close> of that call is passed over;
  then the directory is made, and an error of \<^verbatim>\<open>mkdir\<close> is passed over when the name is a
  directory. The directories made before an error stay, so the state is returned with
  the error.
\<close>

definition makedirs_split :: "string \<Rightarrow> string \<times> string" where
  "makedirs_split name =
     (if os_path_basename name = []
      then (os_path_dirname (os_path_dirname name), os_path_basename (os_path_dirname name))
      else (os_path_dirname name, os_path_basename name))"

definition mkdir_exist_ok :: "string \<Rightarrow> filesystem \<Rightarrow> os_error option \<times> filesystem" where
  "mkdir_exist_ok name fs =
     (case os_mkdir name fs of
        Inl e \<Rightarrow> if os_path_isdir fs name then (None, fs) else (Some e, fs)
      | Inr fs1 \<Rightarrow> (None, fs1))"

lemma length_dirname_basename:
  "length (os_path_dirname s) + length (os_path_basename s) \<le> length s"
proof -
  let ?h = "rev (dropWhile (\<lambda>c. c \<noteq> CHR ''/'') (rev s))"
  have "length ?h + length (os_path_basename s) = length s"
    unfolding os_path_basename_def
    by (metis add.commute length_append length_rev takeWhile_dropWhile_id)
  moreover have "length (os_path_dirname s) \<le> length ?h"
    by (simp add: os_path_dirname_def Let_def length_dropWhile_le[of _ "rev ?h", simplified])
  ultimately show ?thesis by simp
qed

lemma makedirs_split_shorter:
  assumes "makedirs_split name = (head, tail)" "tail \<noteq> []"
  shows "length head < length name"
proof -
  from assms(2) have t: "0 < length tail" by simp
  show ?thesis
  proof (cases "os_path_basename name = []")
    case True
    with assms(1) have "head = os_path_dirname (os_path_dirname name)"
      "tail = os_path_basename (os_path_dirname name)"
      by (simp_all add: makedirs_split_def)
    then have "length head + length tail \<le> length (os_path_dirname name)"
      using length_dirname_basename[of "os_path_dirname name"] by (simp only:)
    moreover have "length (os_path_dirname name) \<le> length name"
      using length_dirname_basename[of name] by linarith
    ultimately show ?thesis using t by linarith
  next
    case False
    with assms(1) have "head = os_path_dirname name" "tail = os_path_basename name"
      by (simp_all add: makedirs_split_def)
    then have "length head + length tail \<le> length name"
      using length_dirname_basename[of name] by (simp only:)
    then show ?thesis using t by linarith
  qed
qed

function os_makedirs :: "string \<Rightarrow> filesystem \<Rightarrow> os_error option \<times> filesystem" where
  "os_makedirs name fs =
     (if fst (makedirs_split name) \<noteq> [] \<and> snd (makedirs_split name) \<noteq> [] \<and>
         \<not> os_path_exists fs (fst (makedirs_split name))
      then
        (case os_makedirs (fst (makedirs_split name)) fs of
           (Some e, fs1) \<Rightarrow>
             if e \<noteq> FileExistsError then (Some e, fs1)
             else if snd (makedirs_split name) = ''.'' then (None, fs1)
             else mkdir_exist_ok name fs1
         | (None, fs1) \<Rightarrow>
             if snd (makedirs_split name) = ''.'' then (None, fs1)
             else mkdir_exist_ok name fs1)
      else mkdir_exist_ok name fs)"
  by pat_completeness auto
termination
proof (relation "measure (\<lambda>(name, fs). length name)", goal_cases)
  case 1
  show ?case by simp
next
  case (2 name fs)
  then show ?case
    using makedirs_split_shorter[of name "fst (makedirs_split name)" "snd (makedirs_split name)"]
    by simp
qed

declare os_makedirs.simps [simp del]

text \<open>\<^verbatim>\<open>os.link(src, dst)\<close>.\<close>

definition os_link :: "string \<Rightarrow> string \<Rightarrow> filesystem \<Rightarrow> os_error + filesystem" where
  "os_link src dst fs =
     (case lookup fs src of
        None \<Rightarrow> Inl FileNotFoundError
      | Some Dir \<Rightarrow> Inl PermissionError
      | Some (File i) \<Rightarrow>
          (case resolve fs dst of
             Inl e \<Rightarrow> Inl e
           | Inr p \<Rightarrow>
               if node_at fs p \<noteq> None then Inl FileExistsError
               else if \<not> hardlinks_supported fs then Inl OSError
               else Inr (set_node p (File i) fs)))"

text \<open>
  \<^verbatim>\<open>shutil.copy2(src, dst)\<close>: into the directory when \<open>dst\<close> is one; the same file on both
  sides is an error; an existing file is overwritten in its inode, a new one gets a new
  inode.
\<close>

definition shutil_copy2 :: "string \<Rightarrow> string \<Rightarrow> filesystem \<Rightarrow> os_error + filesystem" where
  "shutil_copy2 src dst fs =
     (let target = (if os_path_isdir fs dst then os_path_join dst (os_path_basename src) else dst)
      in case lookup fs src of
           None \<Rightarrow> Inl FileNotFoundError
         | Some Dir \<Rightarrow> Inl IsADirectoryError
         | Some (File i) \<Rightarrow>
             (case resolve fs target of
                Inl e \<Rightarrow> Inl e
              | Inr p \<Rightarrow>
                  (case node_at fs p of
                     Some Dir \<Rightarrow> Inl IsADirectoryError
                   | Some (File j) \<Rightarrow>
                       if i = j then Inl SameFileError
                       else Inr (fs\<lparr>store := (store fs)(j := store fs i)\<rparr>)
                   | None \<Rightarrow>
                       Inr (set_node p (File (next_inode fs))
                              (fs\<lparr>store := (store fs)(next_inode fs := store fs i),
                                  next_inode := Suc (next_inode fs)\<rparr>)))))"

text \<open>\<^verbatim>\<open>os.remove(path)\<close>.\<close>

definition os_remove :: "string \<Rightarrow> filesystem \<Rightarrow> os_error + filesystem" where
  "os_remove s fs =
     (case resolve fs s of
        Inl e \<Rightarrow> Inl e
      | Inr p \<Rightarrow>
          (case node_at fs p of
             None \<Rightarrow> Inl FileNotFoundError
           | Some Dir \<Rightarrow> Inl IsADirectoryError
           | Some (File i) \<Rightarrow> Inr (del_node p fs)))"

text \<open>\<^verbatim>\<open>open(path, "wb")\<close> followed by \<^verbatim>\<open>write(content)\<close>.\<close>

definition write_file :: "string \<Rightarrow> string \<Rightarrow> filesystem \<Rightarrow> os_error + filesystem" where
  "write_file s content fs =
     (case resolve fs s of
        Inl e \<Rightarrow> Inl e
      | Inr p \<Rightarrow>
          (case node_at fs p of
             Some Dir \<Rightarrow> Inl IsADirectoryError
           | Some (File j) \<Rightarrow> Inr (fs\<lparr>store := (store fs)(j \<mapsto> content)\<rparr>)
           | None \<Rightarrow>
               Inr (set_node p (File (next_inode fs))
                      (fs\<lparr>store := (store fs)(next_inode fs \<mapsto> content),
                          next_inode := Suc (next_inode fs)\<rparr>))))"

subsection \<open>Walking a directory tree\<close>

lemma str_split_no_sep: "sep \<notin> set s \<Longrightarrow> str_split sep s = [s]"
  by (induction s) auto

lemma str_split_ne [simp]: "str_split sep s \<noteq> []"
  by (induction s) (auto split: list.splits)

lemma str_split_append:
  "str_split sep (a @ sep # b) = str_split sep a @ str_split sep b"
  by (induction a) (auto split: list.splits)

lemma components_append_sep: "components (a @ CHR ''/'' # b) = components a @ components b"
  by (simp add: components_def str_split_append)

lemma components_Nil [simp]: "components [] = []"
  by (simp add: components_def)

lemma components_no_sep: "CHR ''/'' \<notin> set d \<Longrightarrow> d \<noteq> [] \<Longrightarrow> components d = [d]"
  by (simp add: components_def str_split_no_sep)

lemma valid_name_relative: "valid_name d \<Longrightarrow> \<not> is_absolute d"
  by (cases d) (auto simp: valid_name_def is_absolute_def)

lemma join_valid_cases:
  assumes "valid_name d" "top_dir \<noteq> []"
  obtains t where "top_dir = t @ ''/''" "os_path_join top_dir d = t @ CHR ''/'' # d"
  | "last top_dir \<noteq> CHR ''/''" "os_path_join top_dir d = top_dir @ CHR ''/'' # d"
proof (cases "last top_dir = CHR ''/''")
  case True
  with assms(2) obtain t where t: "top_dir = t @ ''/''"
    by (metis append_butlast_last_id)
  with assms(1) have "os_path_join top_dir d = t @ CHR ''/'' # d"
    by (simp add: os_path_join_def valid_name_relative)
  with t that(1) show ?thesis by blast
next
  case False
  with assms have "os_path_join top_dir d = top_dir @ CHR ''/'' # d"
    by (simp add: os_path_join_def valid_name_relative)
  with False that(2) show ?thesis by blast
qed

lemma components_join_valid:
  assumes "valid_name d" "top_dir \<noteq> []"
  shows "components (os_path_join top_dir d) = components top_dir @ [d]"
proof -
  have d: "components d = [d]" using assms(1) by (simp add: valid_name_def components_no_sep)
  from assms show ?thesis
  proof (cases rule: join_valid_cases)
    case (1 t)
    have "components top_dir = components t"
      unfolding 1(1) using components_append_sep[of t "[]"] by simp
    with 1(2) d show ?thesis by (simp add: components_append_sep)
  next
    case 2
    with d show ?thesis by (simp add: components_append_sep)
  qed
qed

lemma is_absolute_join_valid:
  assumes "valid_name d" "top_dir \<noteq> []"
  shows "is_absolute (os_path_join top_dir d) = is_absolute top_dir"
  using assms
proof (cases rule: join_valid_cases)
  case (1 t)
  then show ?thesis by (cases t) (simp_all add: is_absolute_def)
next
  case 2
  with assms(2) show ?thesis by (cases top_dir) (simp_all add: is_absolute_def)
qed

lemma last_join_valid:
  assumes "valid_name d" "top_dir \<noteq> []"
  shows "last (os_path_join top_dir d) \<noteq> CHR ''/''" "os_path_join top_dir d \<noteq> []"
proof -
  from assms(1) have d: "d \<noteq> []" "CHR ''/'' \<notin> set d"
    by (simp_all add: valid_name_def)
  then have l: "d \<noteq> []" "last d \<noteq> CHR ''/''" by (metis last_in_set)+
  from assms show "last (os_path_join top_dir d) \<noteq> CHR ''/''"
    by (cases rule: join_valid_cases) (use l in simp_all)
  from assms show "os_path_join top_dir d \<noteq> []"
    by (cases rule: join_valid_cases) simp_all
qed

lemma walk_append:
  "walk fs cur (cs @ ds) = (case walk fs cur cs of Inl e \<Rightarrow> Inl e | Inr q \<Rightarrow> walk fs q ds)"
  by (induction cs arbitrary: cur) (auto split: option.splits node.splits)

lemma resolve_Inr:
  "resolve fs s = Inr p \<longleftrightarrow>
     locate fs s = Inr p \<and> (last s = CHR ''/'' \<longrightarrow> node_at fs p = Some Dir)"
  by (auto simp: resolve_def split: sum.splits)

lemma locate_Inr:
  "locate fs s = Inr p \<longleftrightarrow>
     s \<noteq> [] \<and> walk fs (if is_absolute s then [] else cwd fs) (components s) = Inr p"
  by (simp add: locate_def)

lemma locate_join_valid:
  assumes "locate fs top_dir = Inr p" "node_at fs p = Some Dir" "valid_name d"
  shows "locate fs (os_path_join top_dir d) = Inr (p @ [d])"
proof -
  from assms(1) have t: "top_dir \<noteq> []"
    and w: "walk fs (if is_absolute top_dir then [] else cwd fs) (components top_dir) = Inr p"
    by (simp_all add: locate_Inr)
  from assms(3) have d: "d \<noteq> ''.''" "d \<noteq> ''..''" by (auto simp: valid_name_def)
  show ?thesis
    unfolding locate_Inr
    using w assms(2) d last_join_valid(2)[OF assms(3) t]
    by (simp add: components_join_valid[OF assms(3) t] is_absolute_join_valid[OF assms(3) t]
        walk_append)
qed

lemma resolve_join_valid:
  assumes "resolve fs top_dir = Inr p" "node_at fs p = Some Dir" "valid_name d"
  shows "resolve fs (os_path_join top_dir d) = Inr (p @ [d])"
proof -
  from assms(1) have l: "locate fs top_dir = Inr p" and t: "top_dir \<noteq> []"
    by (auto simp: resolve_Inr locate_Inr)
  from locate_join_valid[OF l assms(2,3)] last_join_valid(1)[OF assms(3) t]
  show ?thesis by (simp add: resolve_Inr)
qed

lemma scandir_member:
  "(d, n) \<in> set (scandir fs p) \<Longrightarrow> valid_name d \<and> (p @ [d], n) \<in> set (nodes fs)"
  by (auto simp: scandir_def)

lemma subdir_names_member:
  "d \<in> set (subdir_names fs p) \<Longrightarrow> valid_name d \<and> (p @ [d], Dir) \<in> set (nodes fs)"
  using scandir_member by (fastforce simp: subdir_names_def)

definition below_count :: "filesystem \<Rightarrow> path \<Rightarrow> nat" where
  "below_count fs p = length (filter (\<lambda>(q, n). strict_prefix p q) (nodes fs))"

lemma below_count_child:
  assumes "(p @ [d], n) \<in> set (nodes fs)"
  shows "below_count fs (p @ [d]) < below_count fs p"
proof -
  let ?P = "\<lambda>(q, n). strict_prefix (p @ [d]) q" and ?Q = "\<lambda>(q, n::node). strict_prefix p q"
  have "filter ?P (nodes fs) = filter ?P (filter ?Q (nodes fs))"
    by (auto intro!: filter_cong simp: strict_prefix_def prefix_def)
  moreover have "(p @ [d], n) \<in> set (filter ?Q (nodes fs))" using assms by (auto simp: strict_prefix_def)
  moreover have "\<not> ?P (p @ [d], n)" by simp
  ultimately show ?thesis unfolding below_count_def
    by (metis length_filter_less)
qed

definition walk_measure :: "filesystem \<Rightarrow> string \<Rightarrow> nat" where
  "walk_measure fs top_dir = (case resolve fs top_dir of Inl e \<Rightarrow> 0 | Inr p \<Rightarrow> below_count fs p)"

text \<open>
  \<^verbatim>\<open>os.walk(top, topdown)\<close> on a file system that does not change during the walk:
  for every directory its path as a string (the top as given, the others joined to it),
  the names of its sub-directories and the names of its other entries; a top that is not
  a directory yields nothing. The walk terminates because every step goes to an entry
  that lies below the one before.
\<close>

function os_walk :: "bool \<Rightarrow> filesystem \<Rightarrow> string \<Rightarrow> (string \<times> string list \<times> string list) list" where
  "os_walk topdown fs top_dir =
     (case resolve fs top_dir of
        Inl e \<Rightarrow> []
      | Inr p \<Rightarrow>
          if node_at fs p \<noteq> Some Dir then []
          else
            (let dirs = subdir_names fs p;
                 files = file_names fs p;
                 below = concat (map (\<lambda>d. os_walk topdown fs (os_path_join top_dir d)) dirs)
             in if topdown then (top_dir, dirs, files) # below
                else below @ [(top_dir, dirs, files)]))"
  by pat_completeness auto
termination
proof (relation "measure (\<lambda>(topdown, fs, top_dir). walk_measure fs top_dir)", goal_cases)
  case 1 show ?case by simp
next
  case (2 topdown fs top_dir p dirs files d)
  then have r: "resolve fs top_dir = Inr p" and n: "node_at fs p = Some Dir" by simp_all
  from 2 have "valid_name d" "(p @ [d], Dir) \<in> set (nodes fs)"
    using subdir_names_member by blast+
  with r n show ?case
    by (simp add: walk_measure_def resolve_join_valid below_count_child)
qed

declare os_walk.simps [simp del]
section \<open>Data model\<close>

text \<open>
  The rows of \<^verbatim>\<open>app.internal.models\<close>, with the fields the routers and the processor
  read and write. A release date is kept by its year, the only part that is read.
\<close>

record audiobook =
  book_asin :: string
  title :: string
  subtitle :: "string option"
  authors :: "string list"
  series :: "string list"
  series_index :: "string option"
  release_year :: "nat option"
  cover_image :: "string option"
  downloaded :: bool

record audiobook_request =
  req_asin :: string
  user_username :: string
  processing_status :: string
  download_progress :: real
  torrent_hash :: "string option"
  download_state :: "string option"
  mam_id :: "nat option"

record user =
  username :: string
  password :: string
  user_group :: string
  root :: bool

datatype RequestLogLevel = info | error

record request_log =
  log_asin :: string
  log_username :: string
  log_message :: string
  log_level :: RequestLogLevel

datatype ImportSessionStatus = scanning | completed | failed

record library_import_session =
  session_id :: nat
  root_path :: string
  status :: ImportSessionStatus

record torrent =
  torrent_hash_of :: string
  tags :: "string option"

record prowlarr_source =
  guid :: string
  indexer_id :: int

record download_source_body =
  body_guid :: string
  body_indexer_id :: int
  body_collection :: bool
  body_collection_label :: "string option"

record download_job =
  job_asin :: string
  job_title :: string
  job_subtitle :: "string option"
  job_status :: string
  job_progress :: real
  job_torrent_hash :: "string option"
  job_download_state :: "string option"
  job_downloaded :: bool

datatype http_error = HTTPException nat string

datatype response = Response nat

text \<open>
  What a handler does to the world outside the database: lines of the application
  logger, background tasks handed to the framework, and calls to the collaborators.
\<close>

datatype effect =
    LoggerInfo string
  | LoggerWarning string
  | LoggerError string
  | BackgroundStartQuery string
  | BackgroundAbsScan
  | AbsTriggerScan
  | DeleteTorrents "string list" bool
  | StartDownload string int
  | LoggerDebug string
  | CommitRequest audiobook_request
  | GenerateAbsMetadata string
  | GenerateOpfMetadata string

text \<open>
  The state the routers and the processor work on: the tables of the database, the
  torrents the qBittorrent client holds, the search-result cache, the file system, and
  the trace of effects.
  The cache maps a query signature to the time it was fetched at and the results.
\<close>

record world =
  users :: "string \<rightharpoonup> user"
  audiobooks :: "string \<rightharpoonup> audiobook"
  requests :: "audiobook_request list"
  request_logs :: "request_log list"
  import_sessions :: "library_import_session list"
  client_torrents :: "torrent list"
  prowlarr_source_cache :: "string \<rightharpoonup> (nat \<times> prowlarr_source list)"
  fs :: filesystem
  effects :: "effect list"

definition emit :: "effect \<Rightarrow> world \<Rightarrow> world" where
  "emit e w = w\<lparr>effects := effects w @ [e]\<rparr>"

text \<open>
  Modelled from the spec: \<^verbatim>\<open>log_request_event\<close> (module
  \<^verbatim>\<open>app.internal.request_logs\<close>) appends one event to the append-only audit trail.
\<close>

definition log_request_event ::
  "string \<Rightarrow> string \<Rightarrow> string \<Rightarrow> RequestLogLevel \<Rightarrow> world \<Rightarrow> world" where
  "log_request_event a u msg lvl w =
     w\<lparr>request_logs := request_logs w @
        [\<lparr>log_asin = a, log_username = u, log_message = msg, log_level = lvl\<rparr>]\<rparr>"

subsection \<open>The system user\<close>

definition get_system_user :: "world \<Rightarrow> user \<times> world" where
  "get_system_user w =
     (case users w ''system'' of
        Some u \<Rightarrow> (u, w)
      | None \<Rightarrow>
          (let u = \<lparr>username = ''system'', password = '''', user_group = ''admin'', root = True\<rparr>
           in (u, w\<lparr>users := (users w)(''system'' \<mapsto> u)\<rparr>)))"

section \<open>The downloads router\<close>

text \<open>
  The collaborators of the downloads router that are not part of the state: the
  region table and the region setting, the catalog lookup, the check of the library
  folder, and the settings read through the session.
\<close>

text \<open>
  What \<^verbatim>\<open>start_download\<close> gives the handler: its boolean result, or the exception
  \<^verbatim>\<open>ProwlarrMisconfigured\<close> with its message.
\<close>

datatype start_outcome = Started bool | Misconfigured string

record router_env =
  audible_regions :: "string \<rightharpoonup> string"
  region_from_settings :: string
  get_book_by_asin :: "string \<Rightarrow> string \<Rightarrow> audiobook option"
  library_contains_asin :: "string \<Rightarrow> bool"
  auto_download :: bool
  qbit_enabled :: bool
  get_torrents_raises :: bool
  delete_torrents_raises :: "string \<Rightarrow> bool"
  abs_is_valid :: bool
  clock :: nat
  source_ttl :: nat
  build_prowlarr_query :: "audiobook \<Rightarrow> string"
  start_download ::
    "string \<Rightarrow> int \<Rightarrow> user \<Rightarrow> audiobook_request \<Rightarrow> prowlarr_source \<Rightarrow> bool \<Rightarrow>
       string option \<Rightarrow> world \<Rightarrow> start_outcome \<times> world"

definition job_view :: "audiobook \<Rightarrow> audiobook_request option \<Rightarrow> download_job" where
  "job_view book req =
     \<lparr>job_asin = book_asin book,
      job_title = title book,
      job_subtitle = subtitle book,
      job_status = (case req of Some r \<Rightarrow> processing_status r | None \<Rightarrow> ''not_queued''),
      job_progress = (case req of Some r \<Rightarrow> download_progress r | None \<Rightarrow> 0),
      job_torrent_hash = (case req of Some r \<Rightarrow> torrent_hash r | None \<Rightarrow> None),
      job_download_state = (case req of Some r \<Rightarrow> download_state r | None \<Rightarrow> None),
      job_downloaded = downloaded book\<rparr>"

definition get_request :: "world \<Rightarrow> string \<Rightarrow> audiobook_request option" where
  "get_request w a = find (\<lambda>r. req_asin r = a) (requests w)"

text \<open>
  The reset of \<^verbatim>\<open>create_download\<close> writes the row that \<^verbatim>\<open>_get_request\<close>
  returned, the first one of the asin, in place.
\<close>

definition reopen :: "audiobook_request \<Rightarrow> audiobook_request" where
  "reopen r = r\<lparr>processing_status := ''pending'', download_progress := 0,
                torrent_hash := None, download_state := None\<rparr>"

fun update_first :: "('a \<Rightarrow> bool) \<Rightarrow> ('a \<Rightarrow> 'a) \<Rightarrow> 'a list \<Rightarrow> 'a list" where
  "update_first P f [] = []"
| "update_first P f (x # xs) = (if P x then f x # xs else x # update_first P f xs)"

text \<open>
  Modelled from the spec: the defaults of a new \<^verbatim>\<open>AudiobookRequest\<close> row (the
  model class is in \<^verbatim>\<open>app.internal.models\<close>): status \<open>pending\<close>, progress 0.0, no
  torrent hash, no download state, no alternate metadata key.
\<close>

definition new_request :: "string \<Rightarrow> string \<Rightarrow> audiobook_request" where
  "new_request a u =
     \<lparr>req_asin = a, user_username = u, processing_status = ''pending'',
      download_progress = 0, torrent_hash = None, download_state = None, mam_id = None\<rparr>"

definition chosen_region :: "router_env \<Rightarrow> string option \<Rightarrow> string" where
  "chosen_region env region_arg =
     (case region_arg of None \<Rightarrow> region_from_settings env | Some r \<Rightarrow> r)"

definition create_download ::
  "router_env \<Rightarrow> string \<Rightarrow> string option \<Rightarrow> world \<Rightarrow> (http_error + download_job) \<times> world" where
  "create_download env a region_arg w =
     (let (usr, w1) = get_system_user w;
          region = chosen_region env region_arg
      in if audible_regions env region = None
         then (Inl (HTTPException 400 ''Invalid region''), w1)
         else
           (case get_book_by_asin env a region of
              None \<Rightarrow> (Inl (HTTPException 404 ''Book not found''), w1)
            | Some fetched \<Rightarrow>
                (let existing_library_book = audiobooks w1 a;
                     (book, w2) =
                        (case existing_library_book of
                           Some b \<Rightarrow> (b, w1)
                         | None \<Rightarrow>
                             (fetched,
                              w1\<lparr>audiobooks := (audiobooks w1)(book_asin fetched \<mapsto> fetched)\<rparr>));
                     in_library_on_disk = library_contains_asin env a
                 in if in_library_on_disk \<and>
                       \<not> (case existing_library_book of
                            Some b \<Rightarrow> \<not> downloaded b | None \<Rightarrow> False)
                    then (Inl (HTTPException 400 ''Book already exists in library folder''), w2)
                    else if (case existing_library_book of
                               Some b \<Rightarrow> downloaded b | None \<Rightarrow> False)
                    then (Inl (HTTPException 400 ''Book already in library''), w2)
                    else
                      (let w3 =
                         (case get_request w2 a of
                            Some existing_request \<Rightarrow>
                              emit (LoggerInfo ''Reopened audiobook download'')
                                (log_request_event a (username usr) ''Download re-opened.'' info
                                   (w2\<lparr>requests :=
                                        update_first (\<lambda>r. req_asin r = a) reopen (requests w2)\<rparr>))
                          | None \<Rightarrow>
                              emit (LoggerInfo ''Queued new audiobook download'')
                                (log_request_event a (username usr) ''Download created.'' info
                                   (w2\<lparr>requests :=
                                        requests w2 @ [new_request a (username usr)]\<rparr>)));
                           w4 = (if auto_download env then emit (BackgroundStartQuery a) w3 else w3)
                       in (Inr (job_view book (get_request w4 a)), w4)))))"

text \<open>
  \<^verbatim>\<open>delete_download\<close>. The loop over the torrents of the client stops at the first
  call that raises; the exception is logged and swallowed by the handler.
\<close>

text \<open>\<^verbatim>\<open>t.get("tags", "")\<close>.\<close>

definition tags_of :: "torrent \<Rightarrow> string" where
  "tags_of t = (case tags t of Some s \<Rightarrow> s | None \<Rightarrow> [])"

definition torrent_matches :: "string \<Rightarrow> torrent \<Rightarrow> bool" where
  "torrent_matches a t = str_contains (''asin:'' @ a) (tags_of t)"

fun delete_matching :: "router_env \<Rightarrow> string \<Rightarrow> bool \<Rightarrow> torrent list \<Rightarrow> world \<Rightarrow> world" where
  "delete_matching env a delete_files [] w = w"
| "delete_matching env a delete_files (t # ts) w =
     (if torrent_matches a t
      then (if delete_torrents_raises env (torrent_hash_of t)
            then emit (LoggerWarning
                   ''Failed to delete torrent from qBittorrent during download deletion'') w
            else delete_matching env a delete_files ts
                   (emit (LoggerInfo ''Deleted torrent from qBittorrent for deleted download'')
                      (emit (DeleteTorrents [torrent_hash_of t] delete_files)
                         (w\<lparr>client_torrents :=
                              filter (\<lambda>x. torrent_hash_of x \<noteq> torrent_hash_of t)
                                (client_torrents w)\<rparr>))))
      else delete_matching env a delete_files ts w)"

definition delete_download ::
  "router_env \<Rightarrow> string \<Rightarrow> bool \<Rightarrow> bool option \<Rightarrow> world \<Rightarrow> response \<times> world" where
  "delete_download env a delete_files_arg delete_files_q w =
     (let delete_files = (case delete_files_q of Some q \<Rightarrow> q | None \<Rightarrow> delete_files_arg);
          w1 = (if qbit_enabled env
                then (if get_torrents_raises env
                      then emit (LoggerWarning
                             ''Failed to delete torrent from qBittorrent during download deletion'') w
                      else delete_matching env a delete_files (client_torrents w) w)
                else w);
          w2 = w1\<lparr>requests := filter (\<lambda>r. req_asin r \<noteq> a) (requests w1)\<rparr>;
          w3 = (if delete_files \<and> abs_is_valid env then emit AbsTriggerScan w2 else w2)
      in (Response 204, w3))"

subsection \<open>The search-result cache\<close>

text \<open>
  Modelled from the spec: the search-result cache \<^verbatim>\<open>prowlarr_source_cache\<close> and
  \<^verbatim>\<open>flush_prowlarr_cache\<close> of \<^verbatim>\<open>app.internal.prowlarr.util\<close>, which the routers import.
  An entry is a key with the time it was fetched at and the results; it expires after
  the configured time to live, and an expired entry is not returned. The flush
  invalidates all entries at once, regardless of their age.
\<close>

definition cache_expired :: "nat \<Rightarrow> nat \<Rightarrow> nat \<Rightarrow> bool" where
  "cache_expired clock_now ttl fetched_at = (fetched_at + ttl < clock_now)"

definition cache_get ::
  "nat \<Rightarrow> nat \<Rightarrow> (string \<rightharpoonup> (nat \<times> prowlarr_source list)) \<Rightarrow> string \<Rightarrow>
     prowlarr_source list option" where
  "cache_get clock_now ttl cache key =
     (case cache key of
        None \<Rightarrow> None
      | Some (fetched_at, results) \<Rightarrow>
          if cache_expired clock_now ttl fetched_at then None else Some results)"

definition flush_prowlarr_cache :: "world \<Rightarrow> world" where
  "flush_prowlarr_cache w = w\<lparr>prowlarr_source_cache := Map.empty\<rparr>"

subsection \<open>\<^verbatim>\<open>start_download_source\<close>\<close>

text \<open>
  The first request of the asin joined with a catalog record that is not marked
  downloaded.
\<close>

definition active_request :: "world \<Rightarrow> string \<Rightarrow> audiobook_request option" where
  "active_request w a =
     find (\<lambda>r. req_asin r = a \<and>
                (case audiobooks w (req_asin r) of Some b \<Rightarrow> \<not> downloaded b | None \<Rightarrow> False))
       (requests w)"

text \<open>\<^verbatim>\<open>build_prowlarr_query(session, book) if book else ""\<close>.\<close>

definition cache_key_of :: "router_env \<Rightarrow> world \<Rightarrow> string \<Rightarrow> string" where
  "cache_key_of env w a =
     (case audiobooks w a of Some book \<Rightarrow> build_prowlarr_query env book | None \<Rightarrow> [])"

text \<open>
  The handler. The call of \<^verbatim>\<open>start_download\<close> is recorded in the trace before the
  collaborator runs; the exception \<^verbatim>\<open>HTTPException\<close> raised inside the \<^verbatim>\<open>try\<close> block is
  not caught by its \<^verbatim>\<open>except ProwlarrMisconfigured\<close>.
\<close>

definition start_download_source ::
  "router_env \<Rightarrow> string \<Rightarrow> download_source_body \<Rightarrow> world \<Rightarrow> (http_error + response) \<times> world" where
  "start_download_source env a body w =
     (let (usr, w1) = get_system_user w
      in case active_request w1 a of
           None \<Rightarrow>
             (Inl (HTTPException 404 ''Active download for this audiobook not found.''), w1)
         | Some book_request \<Rightarrow>
             (let cache_key = cache_key_of env w1 a;
                  sources = cache_get (clock env) (source_ttl env) (prowlarr_source_cache w1)
                              cache_key;
                  source =
                    (case sources of
                       None \<Rightarrow> None
                     | Some ss \<Rightarrow>
                         if ss = [] then None
                         else find (\<lambda>s. guid s = body_guid body \<and>
                                         indexer_id s = body_indexer_id body) ss)
              in case source of
                   None \<Rightarrow>
                     (Inl (HTTPException 404 ''Source not found in cache for this book.''), w1)
                 | Some src \<Rightarrow>
                     (case start_download env (body_guid body) (body_indexer_id body) usr
                             book_request src (body_collection body) (body_collection_label body)
                             (emit (StartDownload (body_guid body) (body_indexer_id body)) w1) of
                        (Misconfigured msg, w2) \<Rightarrow>
                          (Inl (HTTPException 500 msg),
                           emit (LoggerError ''Prowlarr misconfigured for download'') w2)
                      | (Started success, w2) \<Rightarrow>
                          if \<not> success
                          then (Inl (HTTPException 500 ''Failed to start download''),
                                emit (LoggerError ''Failed to start download via qBittorrent'') w2)
                          else (Inr (Response 204),
                                if abs_is_valid env then emit BackgroundAbsScan w2 else w2))))"

section \<open>The completed-download processor\<close>

subsection \<open>Collaborators\<close>

text \<open>
  The settings the processor reads through the session and the collaborators it calls,
  none of them under the processor's own module: the library path and the file pattern,
  the folder the library service computes for a book and the file name it generates, the
  completion action of the download client, the order \<^verbatim>\<open>natural_sort\<close> leaves a list in,
  the lookup of the alternate metadata source, the two metadata generators (whether they
  raise), and the download of the cover.
\<close>

record mam_result =
  mam_series :: string

datatype mam_outcome = MamRaises | MamReturns "mam_result option"

datatype cover_outcome = CoverRaises | CoverResponse nat string

record processor_env =
  library_path :: "string option"
  file_pattern :: string
  get_book_folder_path :: "audiobook \<Rightarrow> string option"
  generate_audiobook_filename :: "audiobook \<Rightarrow> string \<Rightarrow> string \<Rightarrow> string \<Rightarrow> string"
  qbit_complete_action :: string
  natural_sort :: "string list \<Rightarrow> string list"
  fetch_mam_book_details :: "nat \<Rightarrow> mam_outcome"
  normalize_series :: "string \<Rightarrow> (string list \<times> string option) option"
  abs_metadata_raises :: bool
  opf_metadata_raises :: bool
  cover_get :: "string \<Rightarrow> cover_outcome"

datatype exn = OSFailure os_error | Failure string

subsection \<open>Part labels\<close>

text \<open>
  The padding and the part label of \<^verbatim>\<open>process_completed_download\<close> and of
  \<^verbatim>\<open>reorganize_existing_book\<close>, each as its own loop computes it.
\<close>

definition process_padding :: "nat \<Rightarrow> nat" where
  "process_padding total_files = (if total_files \<ge> 100 then 3 else 2)"

definition process_part_str :: "nat \<Rightarrow> nat \<Rightarrow> string" where
  "process_part_str total_files idx =
     (if total_files > 1 then ''Part '' @ format_0d (process_padding total_files) idx else '''')"

definition reorganize_padding :: "nat \<Rightarrow> nat" where
  "reorganize_padding n_audio_files = (if n_audio_files \<ge> 100 then 3 else 2)"

definition reorganize_part_str :: "nat \<Rightarrow> nat \<Rightarrow> string" where
  "reorganize_part_str n_audio_files idx =
     (if n_audio_files > 1 then ''Part '' @ format_0d (reorganize_padding n_audio_files) idx
      else '''')"

subsection \<open>\<^verbatim>\<open>smart_copy\<close>\<close>

definition with_fs :: "world \<Rightarrow> filesystem \<Rightarrow> world" where
  "with_fs w f = w\<lparr>fs := f\<rparr>"

text \<open>The copy that follows the hard-link attempt, or replaces it.\<close>

definition copy_then_delete :: "string \<Rightarrow> string \<Rightarrow> bool \<Rightarrow> world \<Rightarrow> os_error option \<times> world" where
  "copy_then_delete src dst delete_source w =
     (case shutil_copy2 src dst (fs w) of
        Inl e \<Rightarrow> (Some e, w)
      | Inr fs1 \<Rightarrow>
          if delete_source
          then (case os_remove src fs1 of
                  Inl e \<Rightarrow> (Some e, with_fs w fs1)
                | Inr fs2 \<Rightarrow> (None, with_fs w fs2))
          else (None, with_fs w fs1))"

definition smart_copy ::
  "string \<Rightarrow> string \<Rightarrow> bool \<Rightarrow> bool \<Rightarrow> world \<Rightarrow> os_error option \<times> world" where
  "smart_copy src dst use_hardlinks delete_source w =
     (if os_path_abspath (cwd (fs w)) src = os_path_abspath (cwd (fs w)) dst then (None, w)
      else
        (case os_makedirs (os_path_dirname dst) (fs w) of
           (Some e, fs1) \<Rightarrow> (Some e, with_fs w fs1)
         | (None, fs1) \<Rightarrow>
             if use_hardlinks
             then
               (case os_link src dst fs1 of
                  Inl e \<Rightarrow>
                    copy_then_delete src dst delete_source
                      (emit (LoggerDebug ''Processor: Hardlink failed, falling back to copy'')
                         (with_fs w fs1))
                | Inr fs2 \<Rightarrow>
                    if delete_source
                    then
                      (case os_remove src fs2 of
                         Inl e \<Rightarrow>
                           copy_then_delete src dst delete_source
                             (emit (LoggerDebug ''Processor: Hardlink failed, falling back to copy'')
                                (with_fs w fs2))
                       | Inr fs3 \<Rightarrow> (None, with_fs w fs3))
                    else (None, with_fs w fs2))
             else copy_then_delete src dst delete_source (with_fs w fs1)))"

subsection \<open>Writing the request row\<close>

text \<open>
  The request the processor was given is a row of the table, found again by its key
  (asin and user). A commit after an assignment writes the assigned fields to that row;
  the trace records the request as committed.
\<close>

definition same_request :: "audiobook_request \<Rightarrow> audiobook_request \<Rightarrow> bool" where
  "same_request a b = (req_asin a = req_asin b \<and> user_username a = user_username b)"

definition commit_request ::
  "audiobook_request \<Rightarrow> (audiobook_request \<Rightarrow> audiobook_request) \<Rightarrow> world \<Rightarrow> world" where
  "commit_request br f w =
     emit (CommitRequest (f br))
       (w\<lparr>requests := map (\<lambda>r. if same_request r br then f r else r) (requests w)\<rparr>)"

subsection \<open>The collection branch\<close>

definition fresh_session_id :: "library_import_session list \<Rightarrow> nat" where
  "fresh_session_id ss = Suc (fold max (map session_id ss) 0)"

definition set_session_status ::
  "nat \<Rightarrow> ImportSessionStatus \<Rightarrow> library_import_session list \<Rightarrow> library_import_session list" where
  "set_session_status sid st ss = map (\<lambda>s. if session_id s = sid then s\<lparr>status := st\<rparr> else s) ss"

definition collection_label_or_default :: "string option \<Rightarrow> string" where
  "collection_label_or_default l = (case l of None \<Rightarrow> ''collection'' | Some s \<Rightarrow> if s = [] then ''collection'' else s)"

text \<open>
  The name \<^verbatim>\<open>aiohttp\<close> is bound by two \<^verbatim>\<open>import\<close> statements further down in the body of
  \<^verbatim>\<open>process_completed_download\<close>, which makes it a local variable of the whole function.
  On the collection branch neither of them has run when \<^verbatim>\<open>aiohttp.ClientSession()\<close> is
  evaluated, so that expression raises \<^verbatim>\<open>UnboundLocalError\<close> inside the \<^verbatim>\<open>try\<close> block: the
  scanner is never constructed, and the \<^verbatim>\<open>except\<close> branch runs on every call. This is the
  text of the exception.
\<close>

definition unbound_local_message :: string where
  "unbound_local_message =
     ''cannot access local variable '' @ [CHR 0x27] @ ''aiohttp'' @ [CHR 0x27] @
     '' where it is not associated with a value''"

definition process_collection ::
  "audiobook_request \<Rightarrow> string \<Rightarrow> string option \<Rightarrow> world \<Rightarrow> exn option \<times> world" where
  "process_collection br download_path collection_label w =
     (let w1 = log_request_event (req_asin br) (user_username br)
                 (''Collection download completed. Scanning folder for books ('' @
                    collection_label_or_default collection_label @ '')'') info w;
          sid = fresh_session_id (import_sessions w1);
          import_session = \<lparr>session_id = sid, root_path = download_path, status = scanning\<rparr>;
          w2 = w1\<lparr>import_sessions := import_sessions w1 @ [import_session]\<rparr>;
          e = unbound_local_message;
          w3 = log_request_event (req_asin br) (user_username br)
                 (''Collection scan failed: '' @ e) error
                 (emit (LoggerError ''Processor: Collection scan failed'')
                    (w2\<lparr>import_sessions := set_session_status sid failed (import_sessions w2)\<rparr>))
      in (None, commit_request br (\<lambda>r. r\<lparr>processing_status := ''completed''\<rparr>) w3))"

subsection \<open>The single-book branch\<close>

definition default_folder :: "audiobook \<Rightarrow> string" where
  "default_folder book =
     (let author = (case authors book of [] \<Rightarrow> ''Unknown'' | a # rest \<Rightarrow> a);
          year = (case release_year book of Some y \<Rightarrow> str_nat y | None \<Rightarrow> ''Unknown'')
      in author @ ''/'' @ title book @ '' ('' @ year @ '')'')"

definition dest_path_of :: "processor_env \<Rightarrow> audiobook \<Rightarrow> string \<Rightarrow> string" where
  "dest_path_of env book lib_root =
     os_path_join lib_root
       (case get_book_folder_path env book of
          None \<Rightarrow> default_folder book
        | Some p \<Rightarrow> if p = [] then default_folder book else p)"

definition audio_extensions :: "string list" where
  "audio_extensions =
     [''.m4b'', ''.mp3'', ''.m4a'', ''.flac'', ''.wav'', ''.ogg'', ''.opus'', ''.aac'', ''.wma'']"

definition is_audio_file :: "string \<Rightarrow> bool" where
  "is_audio_file f = list_ex (\<lambda>ext. str_endswith (str_lower f) ext) audio_extensions"

definition collect_audio :: "filesystem \<Rightarrow> string \<Rightarrow> string list" where
  "collect_audio f top_dir =
     concat (map (\<lambda>(root, dirs, files). map (os_path_join root) (filter is_audio_file files))
               (os_walk True f top_dir))"

definition audio_files_to_process :: "processor_env \<Rightarrow> filesystem \<Rightarrow> string \<Rightarrow> string list" where
  "audio_files_to_process env f download_path =
     (let source_paths = str_split (CHR ''|'') download_path
      in if length source_paths = 1 \<and> os_path_isdir f (hd source_paths)
         then natural_sort env (collect_audio f (hd source_paths))
         else filter (\<lambda>p. os_path_exists f p \<and> \<not> os_path_isdir f p) source_paths)"

text \<open>
  The enrichment from the alternate metadata source: every exception is swallowed; the
  result of the lookup, when it returned one, is kept for the metadata generators.
\<close>

definition is_set :: "string option \<Rightarrow> bool" where
  "is_set v = (case v of None \<Rightarrow> False | Some s \<Rightarrow> s \<noteq> [])"

definition enrich_from_mam ::
  "processor_env \<Rightarrow> audiobook_request \<Rightarrow> audiobook \<Rightarrow> world \<Rightarrow> mam_result option \<times> audiobook \<times> world" where
  "enrich_from_mam env br book w =
     (case mam_id br of
        None \<Rightarrow> (None, book, w)
      | Some m \<Rightarrow>
          if m = 0 then (None, book, w)
          else
            (case fetch_mam_book_details env m of
               MamRaises \<Rightarrow> (None, book, w)
             | MamReturns None \<Rightarrow> (None, book, w)
             | MamReturns (Some res) \<Rightarrow>
                 if is_set (series_index book) then (Some res, book, w)
                 else
                   (case normalize_series env (mam_series res) of
                      None \<Rightarrow> (Some res, book, w)
                    | Some (m_series, m_index) \<Rightarrow>
                        (let book1 = (if is_set m_index then book\<lparr>series_index := m_index\<rparr> else book);
                             book2 = (if series book1 = [] \<and> m_series \<noteq> []
                                      then book1\<lparr>series := m_series\<rparr> else book1)
                         in (Some res, book2,
                             w\<lparr>audiobooks := (audiobooks w)(book_asin book2 \<mapsto> book2)\<rparr>)))))"

text \<open>The loop that copies and renames, with the progress committed after each file.\<close>

definition copy_progress :: "nat \<Rightarrow> nat \<Rightarrow> real" where
  "copy_progress idx total_files = 0.90 + (real idx / real total_files * 0.02)"

fun copy_and_rename ::
  "processor_env \<Rightarrow> audiobook \<Rightarrow> string \<Rightarrow> bool \<Rightarrow> bool \<Rightarrow> nat \<Rightarrow> (nat \<times> string) list \<Rightarrow>
   audiobook_request \<Rightarrow> world \<Rightarrow> exn option \<times> audiobook_request \<times> world" where
  "copy_and_rename env book dest_path use_hardlinks delete_source total_files [] br w =
     (None, br, w)"
| "copy_and_rename env book dest_path use_hardlinks delete_source total_files
     ((idx, s_path) # rest) br w =
     (let ext = str_lower (os_path_splitext_ext s_path);
          part_str = process_part_str total_files idx;
          new_filename = generate_audiobook_filename env book (file_pattern env) part_str ext;
          d_path = os_path_join dest_path new_filename
      in case smart_copy s_path d_path use_hardlinks delete_source w of
           (Some e, w1) \<Rightarrow> (Some (OSFailure e), br, w1)
         | (None, w1) \<Rightarrow>
             (let f = (\<lambda>r. r\<lparr>download_progress := copy_progress idx total_files\<rparr>)
              in copy_and_rename env book dest_path use_hardlinks delete_source total_files rest
                   (f br) (commit_request br f w1)))"

text \<open>The cover: fetched and written best-effort, every failure swallowed.\<close>

definition cover_path_of :: "string \<Rightarrow> string \<Rightarrow> string" where
  "cover_path_of dest_path url =
     (let e = os_path_splitext_ext (hd (str_split (CHR ''?'') url));
          cover_ext = (if e = [] then ''.jpg'' else e)
      in os_path_join dest_path (''cover'' @ cover_ext))"

definition save_cover :: "processor_env \<Rightarrow> string \<Rightarrow> string \<Rightarrow> world \<Rightarrow> world" where
  "save_cover env dest_path url w =
     (case cover_get env url of
        CoverRaises \<Rightarrow> w
      | CoverResponse code content \<Rightarrow>
          if code = 200
          then (case write_file (cover_path_of dest_path url) content (fs w) of
                  Inl e \<Rightarrow> w
                | Inr fs1 \<Rightarrow> with_fs w fs1)
          else w)"

text \<open>What follows the copy loop: the catalog flag, the metadata, the cover, the end.\<close>

definition finish_download ::
  "processor_env \<Rightarrow> audiobook \<Rightarrow> string \<Rightarrow> audiobook_request \<Rightarrow> world \<Rightarrow> exn option \<times> world" where
  "finish_download env book dest_path br w =
     (let book1 = book\<lparr>downloaded := True\<rparr>;
          w1 = w\<lparr>audiobooks := (audiobooks w)(book_asin book1 \<mapsto> book1)\<rparr>;
          f1 = (\<lambda>r. r\<lparr>processing_status := ''generating_metadata'', download_progress := 0.95\<rparr>);
          w2 = commit_request br f1
                 (log_request_event (req_asin br) (user_username br)
                    ''Generating metadata files.'' info w1);
          br2 = f1 br;
          w3 = emit (GenerateAbsMetadata dest_path) w2
      in if abs_metadata_raises env then (Some (Failure ''generate_abs_metadata''), w3)
         else
           (let w4 = emit (GenerateOpfMetadata dest_path) w3
            in if opf_metadata_raises env then (Some (Failure ''generate_opf_metadata''), w4)
               else
                 (let f2 = (\<lambda>r. r\<lparr>processing_status := ''saving_cover'', download_progress := 0.98\<rparr>);
                      (br3, w5) =
                        (if is_set (cover_image book1)
                         then (f2 br2,
                               save_cover env dest_path (the (cover_image book1))
                                 (commit_request br2 f2
                                    (log_request_event (req_asin br2) (user_username br2)
                                       ''Saving cover image.'' info w4)))
                         else (br2, w4));
                      f3 = (\<lambda>r. r\<lparr>processing_status := ''completed'', download_progress := 1.0\<rparr>)
                  in (None,
                      commit_request br3 f3
                        (log_request_event (req_asin br3) (user_username br3)
                           ''Import completed.'' info w5)))))"

definition process_single ::
  "processor_env \<Rightarrow> audiobook \<Rightarrow> string \<Rightarrow> audiobook_request \<Rightarrow> string \<Rightarrow> bool \<Rightarrow> bool \<Rightarrow>
   world \<Rightarrow> exn option \<times> world" where
  "process_single env book lib_root br download_path delete_source_arg collection w =
     (let dest_path = dest_path_of env book lib_root
      in case os_makedirs dest_path (fs w) of
           (Some e, fs1) \<Rightarrow> (Some (OSFailure e), with_fs w fs1)
         | (None, fs1) \<Rightarrow>
             (let complete_action = qbit_complete_action env;
                  use_hardlinks = (complete_action = ''hardlink'');
                  delete_source =
                    (if collection then False
                     else delete_source_arg \<or> complete_action = ''move'');
                  f0 = (\<lambda>r. r\<lparr>processing_status := ''organizing_files''\<rparr>);
                  w1 = commit_request br f0
                         (log_request_event (req_asin br) (user_username br)
                            ''Organizing and renaming files.'' info
                            (emit (LoggerInfo ''Processor: Organizing and renaming files'')
                               (with_fs w fs1)));
                  br1 = f0 br;
                  audio_files = audio_files_to_process env (fs w1) download_path;
                  (mam, book1, w2) = enrich_from_mam env br1 book w1
              in case copy_and_rename env book1 dest_path use_hardlinks delete_source
                        (length audio_files) (enumerate1 audio_files) br1 w2 of
                   (Some e, br2, w3) \<Rightarrow> (Some e, w3)
                 | (None, br2, w3) \<Rightarrow> finish_download env book1 dest_path br2 w3))"

subsection \<open>\<^verbatim>\<open>process_completed_download\<close>\<close>

definition process_completed_download ::
  "processor_env \<Rightarrow> audiobook_request \<Rightarrow> string \<Rightarrow> bool \<Rightarrow> bool \<Rightarrow> string option \<Rightarrow>
   world \<Rightarrow> exn option \<times> world" where
  "process_completed_download env book_request download_path delete_source collection
     collection_label w =
     (case audiobooks w (req_asin book_request) of
        None \<Rightarrow> (None, emit (LoggerError ''Processor: Book not found in database'') w)
      | Some book \<Rightarrow>
          if \<not> is_set (library_path env)
          then (None, emit (LoggerError ''Processor: Library path not configured'') w)
          else if collection
          then process_collection book_request download_path collection_label w
          else process_single env book (the (library_path env)) book_request download_path
                 delete_source collection w)"

section \<open>Observations and example states\<close>

definition already_in_library :: "http_error + download_job \<Rightarrow> bool" where
  "already_in_library res =
     (res = Inl (HTTPException 400 ''Book already exists in library folder'') \<or>
      res = Inl (HTTPException 400 ''Book already in library''))"

fun delete_call :: "effect \<Rightarrow> string list option" where
  "delete_call (DeleteTorrents hs df) = Some hs"
| "delete_call e = None"

definition delete_calls :: "world \<Rightarrow> string list list" where
  "delete_calls w = List.map_filter delete_call (effects w)"

text \<open>
  The progress values a run commits, read off the trace, and the schedule of the
  single-book branch in the words of the specification: the values after each of the
  \<open>n\<close> files, then 0.95, then 0.98 when there is a cover, then 1.0.
\<close>

fun committed_progress :: "effect \<Rightarrow> real option" where
  "committed_progress (CommitRequest r) = Some (download_progress r)"
| "committed_progress e = None"

definition progress_commits :: "world \<Rightarrow> real list" where
  "progress_commits w = List.map_filter committed_progress (effects w)"

definition progress_schedule :: "nat \<Rightarrow> bool \<Rightarrow> real list" where
  "progress_schedule n has_cover =
     map (\<lambda>idx. 0.90 + (real idx / real n) * 0.02) [1 ..< Suc n] @
     [0.95] @ (if has_cover then [0.98] else []) @ [1.0]"

text \<open>The progress stored in the rows of the request table that belong to a request.\<close>

definition rows_progress :: "world \<Rightarrow> audiobook_request \<Rightarrow> real list" where
  "rows_progress w br = map download_progress (filter (\<lambda>r. same_request r br) (requests w))"

definition empty_fs :: filesystem where
  "empty_fs =
     \<lparr>cwd = [], nodes = [], store = Map.empty, next_inode = 0, hardlinks_supported = True\<rparr>"

definition empty_world :: world where
  "empty_world =
     \<lparr>users = Map.empty, audiobooks = Map.empty, requests = [], request_logs = [],
      import_sessions = [], client_torrents = [], prowlarr_source_cache = Map.empty,
      fs = empty_fs, effects = []\<rparr>"

definition example_book :: audiobook where
  "example_book =
     \<lparr>book_asin = ''B001'', title = ''Y'', subtitle = None, authors = [''X''], series = [],
      series_index = None, release_year = Some 2020, cover_image = None, downloaded = False\<rparr>"

definition example_env :: router_env where
  "example_env =
     \<lparr>audible_regions = [''us'' \<mapsto> ''.com''], region_from_settings = ''us'',
      get_book_by_asin = (\<lambda>a r. if a = ''B001'' then Some example_book else None),
      library_contains_asin = (\<lambda>a. False), auto_download = False, qbit_enabled = True,
      get_torrents_raises = False, delete_torrents_raises = (\<lambda>h. False),
      abs_is_valid = False, clock = 100, source_ttl = 10,
      build_prowlarr_query = (\<lambda>b. title b @ '' '' @ concat (authors b)),
      start_download = (\<lambda>g i u r s c l w. (Started True, w))\<rparr>"

definition downloaded_world :: world where
  "downloaded_world =
     empty_world\<lparr>audiobooks := [''B001'' \<mapsto> example_book\<lparr>downloaded := True\<rparr>]\<rparr>"

definition stale_request :: audiobook_request where
  "stale_request =
     \<lparr>req_asin = ''B001'', user_username = ''system'', processing_status = ''completed'',
      download_progress = 1, torrent_hash = Some ''abc123'', download_state = Some ''uploading'',
      mam_id = None\<rparr>"

definition requeue_world :: world where
  "requeue_world =
     empty_world\<lparr>audiobooks := [''B001'' \<mapsto> example_book], requests := [stale_request]\<rparr>"

definition other_asin_torrent :: torrent where
  "other_asin_torrent = \<lparr>torrent_hash_of = ''abc123'', tags = Some ''narrarr,asin:B0012''\<rparr>"

definition torrent_world :: world where
  "torrent_world = empty_world\<lparr>client_torrents := [other_asin_torrent]\<rparr>"

definition example_processor_env :: processor_env where
  "example_processor_env =
     \<lparr>library_path = Some ''/lib'', file_pattern = ''{title}'',
      get_book_folder_path = (\<lambda>b. None),
      generate_audiobook_filename =
        (\<lambda>b pattern part ext. title b @ (if part = [] then [] else '' '' @ part) @ ext),
      qbit_complete_action = ''move'',
      natural_sort = (\<lambda>xs. xs),
      fetch_mam_book_details = (\<lambda>m. MamRaises),
      normalize_series = (\<lambda>s. None),
      abs_metadata_raises = False, opf_metadata_raises = False,
      cover_get = (\<lambda>url. CoverRaises)\<rparr>"

definition downloading_request :: audiobook_request where
  "downloading_request =
     \<lparr>req_asin = ''B001'', user_username = ''system'', processing_status = ''downloading'',
      download_progress = 0.9, torrent_hash = Some ''abc123'', download_state = Some ''uploading'',
      mam_id = None\<rparr>"

definition tracked_world :: world where
  "tracked_world =
     empty_world\<lparr>audiobooks := [''B001'' \<mapsto> example_book], requests := [downloading_request]\<rparr>"

definition untracked_world :: world where
  "untracked_world = empty_world\<lparr>requests := [downloading_request]\<rparr>"

definition download_fs :: filesystem where
  "download_fs =
     \<lparr>cwd = [],
      nodes = [([''dl''], Dir), ([''dl'', ''a.mp3''], File 0), ([''dl'', ''b.mp3''], File 1),
               ([''lib''], Dir)],
      store = [0 \<mapsto> ''AAA'', 1 \<mapsto> ''BBB''], next_inode = 2, hardlinks_supported = True\<rparr>"

definition completed_world :: world where
  "completed_world = tracked_world\<lparr>fs := download_fs\<rparr>"

text \<open>The file system after the destination folder is made, and after each of the two moves.\<close>

definition organized_fs :: filesystem where
  "organized_fs = download_fs\<lparr>nodes := nodes download_fs @
      [([''lib'', ''X''], Dir), ([''lib'', ''X'', ''Y (2020)''], Dir)]\<rparr>"

definition moved_a_fs :: filesystem where
  "moved_a_fs =
     \<lparr>cwd = [],
      nodes = [([''dl''], Dir), ([''dl'', ''b.mp3''], File 1), ([''lib''], Dir),
               ([''lib'', ''X''], Dir), ([''lib'', ''X'', ''Y (2020)''], Dir),
               ([''lib'', ''X'', ''Y (2020)'', ''Y Part 01.mp3''], File 2)],
      store = [0 \<mapsto> ''AAA'', 1 \<mapsto> ''BBB'', 2 \<mapsto> ''AAA''], next_inode = 3,
      hardlinks_supported = True\<rparr>"

definition moved_b_fs :: filesystem where
  "moved_b_fs =
     \<lparr>cwd = [],
      nodes = [([''dl''], Dir), ([''lib''], Dir),
               ([''lib'', ''X''], Dir), ([''lib'', ''X'', ''Y (2020)''], Dir),
               ([''lib'', ''X'', ''Y (2020)'', ''Y Part 01.mp3''], File 2),
               ([''lib'', ''X'', ''Y (2020)'', ''Y Part 02.mp3''], File 3)],
      store = [0 \<mapsto> ''AAA'', 1 \<mapsto> ''BBB'', 2 \<mapsto> ''AAA'', 3 \<mapsto> ''BBB''], next_inode = 4,
      hardlinks_supported = True\<rparr>"

text \<open>A request that is processed again, having stopped at 0.95 before.\<close>

definition resumed_request :: audiobook_request where
  "resumed_request = downloading_request\<lparr>download_progress := 0.95\<rparr>"

definition resumed_world :: world where
  "resumed_world = completed_world\<lparr>requests := [resumed_request]\<rparr>"

definition example_source :: prowlarr_source where
  "example_source = \<lparr>guid = ''g1'', indexer_id = 7\<rparr>"

definition example_body :: download_source_body where
  "example_body =
     \<lparr>body_guid = ''g1'', body_indexer_id = 7, body_collection = False,
      body_collection_label = None\<rparr>"

text \<open>The sources were listed at time 50, the system user being there already.\<close>

definition listed_world :: world where
  "listed_world =
     tracked_world
       \<lparr>users := [''system'' \<mapsto>
                    \<lparr>username = ''system'', password = [], user_group = ''admin'', root = True\<rparr>],
        prowlarr_source_cache := [''Y X'' \<mapsto> (50, [example_source])]\<rparr>"

section \<open>Properties of the downloads router\<close>

subsection \<open>Auxiliary facts\<close>

lemma get_system_user_tables [simp]:
  "audiobooks (snd (get_system_user w)) = audiobooks w"
  "requests (snd (get_system_user w)) = requests w"
  "effects (snd (get_system_user w)) = effects w"
  "request_logs (snd (get_system_user w)) = request_logs w"
  by (simp_all add: get_system_user_def Let_def split: option.splits)

lemma get_request_emit [simp]: "get_request (emit e w) a = get_request w a"
  by (simp add: get_request_def emit_def)

lemma get_request_log [simp]: "get_request (log_request_event a' u m l w) a = get_request w a"
  by (simp add: get_request_def log_request_event_def)

lemma requests_emit [simp]: "requests (emit e w) = requests w"
  by (simp add: emit_def)

lemma requests_log [simp]: "requests (log_request_event a' u m l w) = requests w"
  by (simp add: log_request_event_def)

lemma find_update_first:
  "find P xs = Some r \<Longrightarrow> (\<And>x. P x \<Longrightarrow> P (f x)) \<Longrightarrow> find P (update_first P f xs) = Some (f r)"
  by (induction xs) (auto split: if_splits)

lemma find_append_new: "find P xs = None \<Longrightarrow> P y \<Longrightarrow> find P (xs @ [y]) = Some y"
  by (induction xs) (auto split: if_splits)

lemma reopen_asin [simp]: "req_asin (reopen r) = req_asin r"
  by (simp add: reopen_def)

lemma map_asin_update_first:
  "(\<And>x. req_asin (f x) = req_asin x) \<Longrightarrow> map req_asin (update_first P f xs) = map req_asin xs"
  by (induction xs) auto

lemma length_update_first [simp]: "length (update_first P f xs) = length xs"
  by (induction xs) auto

lemma filter_other_update_first:
  "filter (\<lambda>x. \<not> P x) (update_first P f xs) = filter (\<lambda>x. \<not> P x) xs" if "\<And>x. P x \<Longrightarrow> P (f x)"
  using that by (induction xs) auto

lemma filter_asin_update_first:
  "distinct (map req_asin xs) \<Longrightarrow> find (\<lambda>r. req_asin r = a) xs = Some r \<Longrightarrow>
   (\<And>x. req_asin (f x) = req_asin x) \<Longrightarrow>
   filter (\<lambda>x. req_asin x = a) (update_first (\<lambda>r. req_asin r = a) f xs) = [f r]"
proof (induction xs)
  case Nil
  then show ?case by simp
next
  case (Cons x xs)
  show ?case
  proof (cases "req_asin x = a")
    case True
    with Cons.prems have "r = x" "\<forall>y\<in>set xs. req_asin y \<noteq> a"
      by (auto simp: image_iff)
    with True Cons.prems(3) show ?thesis
      by (auto simp: filter_empty_conv)
  next
    case False
    with Cons show ?thesis by simp
  qed
qed

lemma find_None_filter: "find P xs = None \<Longrightarrow> filter P xs = []"
  by (induction xs) (auto split: if_splits)

lemma find_None_asin: "find (\<lambda>r. req_asin r = a) xs = None \<Longrightarrow> a \<notin> set (map req_asin xs)"
  by (induction xs) (auto split: if_splits)

text \<open>
  The outcome of \<^verbatim>\<open>create_download\<close> once the region is valid and the catalog lookup
  has found the book: which states are rejected, and what an accepted call returns.
\<close>

lemma create_download_outcome:
  assumes region: "audible_regions env (chosen_region env region_arg) \<noteq> None"
      and book: "get_book_by_asin env a (chosen_region env region_arg) = Some fetched"
  shows "(already_in_library (fst (create_download env a region_arg w)) \<longleftrightarrow>
            (\<exists>b. audiobooks w a = Some b \<and> downloaded b) \<or>
            (audiobooks w a = None \<and> library_contains_asin env a)) \<and>
         (\<not> already_in_library (fst (create_download env a region_arg w)) \<longrightarrow>
            (\<exists>job r. fst (create_download env a region_arg w) = Inr job \<and>
               job_status job = ''pending'' \<and> job_progress job = 0 \<and>
               get_request (snd (create_download env a region_arg w)) a = Some r \<and>
               processing_status r = ''pending'' \<and> download_progress r = 0))"
proof -
  obtain usr w1 where u: "get_system_user w = (usr, w1)"
    by (cases "get_system_user w")
  then have w1: "audiobooks w1 = audiobooks w" "requests w1 = requests w"
    using get_system_user_tables[of w] by simp_all
  show ?thesis
  proof (cases "audiobooks w a")
    case None
    show ?thesis
    proof (cases "library_contains_asin env a")
      case True
      with None u w1 region book show ?thesis
        by (simp add: create_download_def already_in_library_def Let_def)
    next
      case False
      show ?thesis
      proof (cases "find (\<lambda>r. req_asin r = a) (requests w)")
        case N2: None
        with None False u w1 region book show ?thesis
          by (simp add: create_download_def already_in_library_def Let_def get_request_def
              job_view_def find_append_new new_request_def emit_def log_request_event_def)
      next
        case (Some r)
        with None False u w1 region book show ?thesis
          by (simp add: create_download_def already_in_library_def Let_def get_request_def
              job_view_def find_update_first reopen_def emit_def log_request_event_def)
      qed
    qed
  next
    case (Some b)
    show ?thesis
    proof (cases "downloaded b")
      case True
      with Some u w1 region book show ?thesis
        by (simp add: create_download_def already_in_library_def Let_def)
    next
      case False
      show ?thesis
      proof (cases "find (\<lambda>r. req_asin r = a) (requests w)")
        case None
        with Some False u w1 region book show ?thesis
          by (simp add: create_download_def already_in_library_def Let_def get_request_def
              job_view_def find_append_new new_request_def emit_def log_request_event_def)
      next
        case S2: (Some r)
        with Some False u w1 region book show ?thesis
          by (simp add: create_download_def already_in_library_def Let_def get_request_def
              job_view_def find_update_first reopen_def emit_def log_request_event_def)
      qed
    qed
  qed
qed

lemma create_download_requests:
  "requests (snd (create_download env a region_arg w)) =
     (case fst (create_download env a region_arg w) of
        Inl e \<Rightarrow> requests w
      | Inr job \<Rightarrow>
          (case get_request w a of
             Some r \<Rightarrow> update_first (\<lambda>r. req_asin r = a) reopen (requests w)
           | None \<Rightarrow> requests w @ [new_request a (username (fst (get_system_user w)))]))"
proof -
  obtain usr w1 where u: "get_system_user w = (usr, w1)"
    by (cases "get_system_user w")
  then have w1: "audiobooks w1 = audiobooks w" "requests w1 = requests w"
    using get_system_user_tables[of w] by simp_all
  then have g: "get_request w1 a = get_request w a"
    by (simp add: get_request_def)
  have g2: "\<And>bs. get_request (w1\<lparr>audiobooks := bs\<rparr>) a = get_request w a"
    using w1 by (simp add: get_request_def)
  show ?thesis
    using u w1 g g2
    by (simp add: create_download_def Let_def split: option.splits)
qed

lemma str_contains_sublist: "str_contains n h = sublist n h"
  by (induction h) (auto simp: sublist_Cons_right)

lemma delete_calls_emit:
  "delete_calls (emit e w) =
     delete_calls w @ (case delete_call e of Some hs \<Rightarrow> [hs] | None \<Rightarrow> [])"
  by (simp add: delete_calls_def emit_def map_filter_def split: option.splits)

lemma delete_calls_client [simp]: "delete_calls (w\<lparr>client_torrents := ts\<rparr>) = delete_calls w"
  by (simp add: delete_calls_def)

lemma delete_calls_requests [simp]: "delete_calls (w\<lparr>requests := rs\<rparr>) = delete_calls w"
  by (simp add: delete_calls_def)

lemma delete_matching_calls:
  "\<forall>h. \<not> delete_torrents_raises env h \<Longrightarrow>
   delete_calls (delete_matching env a df ts w) =
     delete_calls w @ map (\<lambda>t. [torrent_hash_of t]) (filter (torrent_matches a) ts)"
  by (induction ts arbitrary: w) (simp_all add: delete_calls_emit)

lemma delete_matching_client:
  "\<forall>h. \<not> delete_torrents_raises env h \<Longrightarrow>
   client_torrents (delete_matching env a df ts w) =
     filter (\<lambda>x. torrent_hash_of x \<notin> torrent_hash_of ` set (filter (torrent_matches a) ts))
       (client_torrents w)"
  by (induction ts arbitrary: w) (auto simp: emit_def intro: filter_cong)

subsection \<open>One request row per asin\<close>

text \<open>
  Claim C1. If the request table holds at most one row per asin, it still does after
  \<^verbatim>\<open>create_download\<close>, whatever the outcome. When the call is accepted and a row of the
  asin exists, the table keeps its length, the only row of the asin is the old row with
  status \<open>pending\<close>, progress 0, no torrent hash and no download state, and the rows of the
  other asins are untouched. When the call is accepted and no row exists, exactly one row
  of the asin is there afterwards. A rejected call leaves the table as it was.
\<close>

theorem create_download_one_row_per_asin:
  assumes d: "distinct (map req_asin (requests w))"
  shows "distinct (map req_asin (requests (snd (create_download env a region_arg w)))) \<and>
     (\<forall>job r. fst (create_download env a region_arg w) = Inr job \<and> get_request w a = Some r \<longrightarrow>
        length (requests (snd (create_download env a region_arg w))) = length (requests w) \<and>
        filter (\<lambda>x. req_asin x = a) (requests (snd (create_download env a region_arg w))) =
          [r\<lparr>processing_status := ''pending'', download_progress := 0,
             torrent_hash := None, download_state := None\<rparr>] \<and>
        filter (\<lambda>x. req_asin x \<noteq> a) (requests (snd (create_download env a region_arg w))) =
          filter (\<lambda>x. req_asin x \<noteq> a) (requests w)) \<and>
     (\<forall>job. fst (create_download env a region_arg w) = Inr job \<and> get_request w a = None \<longrightarrow>
        length (filter (\<lambda>x. req_asin x = a)
          (requests (snd (create_download env a region_arg w)))) = 1 \<and>
        filter (\<lambda>x. req_asin x \<noteq> a) (requests (snd (create_download env a region_arg w))) =
          filter (\<lambda>x. req_asin x \<noteq> a) (requests w)) \<and>
     (\<forall>e. fst (create_download env a region_arg w) = Inl e \<longrightarrow>
        requests (snd (create_download env a region_arg w)) = requests w)"
proof -
  let ?res = "create_download env a region_arg w"
  have R: "requests (snd ?res) =
     (case fst ?res of
        Inl e \<Rightarrow> requests w
      | Inr job \<Rightarrow>
          (case get_request w a of
             Some r \<Rightarrow> update_first (\<lambda>r. req_asin r = a) reopen (requests w)
           | None \<Rightarrow> requests w @ [new_request a (username (fst (get_system_user w)))]))"
    by (rule create_download_requests)
  have 1: "distinct (map req_asin (requests (snd ?res)))"
    using d find_None_asin[of a "requests w"]
    by (auto simp: R map_asin_update_first new_request_def get_request_def
        split: sum.splits option.splits)
  have 2: "length (requests (snd ?res)) = length (requests w) \<and>
        filter (\<lambda>x. req_asin x = a) (requests (snd ?res)) =
          [r\<lparr>processing_status := ''pending'', download_progress := 0,
             torrent_hash := None, download_state := None\<rparr>] \<and>
        filter (\<lambda>x. req_asin x \<noteq> a) (requests (snd ?res)) =
          filter (\<lambda>x. req_asin x \<noteq> a) (requests w)"
    if "fst ?res = Inr job" "get_request w a = Some r" for job r
    using that d filter_asin_update_first[of "requests w" a r reopen]
      filter_other_update_first[of "\<lambda>r. req_asin r = a" reopen "requests w"]
    by (simp add: R get_request_def reopen_def)
  have 3: "length (filter (\<lambda>x. req_asin x = a) (requests (snd ?res))) = 1 \<and>
        filter (\<lambda>x. req_asin x \<noteq> a) (requests (snd ?res)) =
          filter (\<lambda>x. req_asin x \<noteq> a) (requests w)"
    if "fst ?res = Inr job" "get_request w a = None" for job
    using that find_None_filter[of "\<lambda>r. req_asin r = a" "requests w"]
    by (simp add: R get_request_def new_request_def)
  have 4: "requests (snd ?res) = requests w" if "fst ?res = Inl e" for e
    using that by (simp add: R)
  from 1 2 3 4 show ?thesis by blast
qed

theorem create_download_one_row_per_asin_witness:
  "distinct (map req_asin (requests requeue_world)) \<and>
   requests (snd (create_download example_env ''B001'' None requeue_world)) =
     [stale_request\<lparr>processing_status := ''pending'', download_progress := 0,
        torrent_hash := None, download_state := None\<rparr>]"
proof -
  let ?res = "create_download example_env ''B001'' None requeue_world"
  have d: "distinct (map req_asin (requests requeue_world))"
    by (simp add: requeue_world_def empty_world_def)
  have g: "get_request requeue_world ''B001'' = Some stale_request"
    by (simp add: get_request_def requeue_world_def empty_world_def stale_request_def)
  have "\<not> already_in_library (fst ?res)"
    using create_download_outcome[of example_env None "''B001''" example_book requeue_world]
    by (simp add: example_env_def chosen_region_def requeue_world_def empty_world_def
        example_book_def)
  then obtain job where j: "fst ?res = Inr job"
    using create_download_outcome[of example_env None "''B001''" example_book requeue_world]
    by (auto simp: example_env_def chosen_region_def)
  from create_download_one_row_per_asin[OF d, of example_env "''B001''" None] j g
  have 1: "length (requests (snd ?res)) = length (requests requeue_world)"
    and 2: "filter (\<lambda>x. req_asin x = ''B001'') (requests (snd ?res)) =
          [stale_request\<lparr>processing_status := ''pending'', download_progress := 0,
             torrent_hash := None, download_state := None\<rparr>]"
    by blast+
  from 1 have "length (requests (snd ?res)) = 1"
    by (simp add: requeue_world_def empty_world_def)
  then obtain x where x: "requests (snd ?res) = [x]"
    by (cases "requests (snd ?res)") auto
  with 2 have "x = stale_request\<lparr>processing_status := ''pending'', download_progress := 0,
             torrent_hash := None, download_state := None\<rparr>"
    by (auto split: if_splits)
  with x d show ?thesis by simp
qed

subsection \<open>Rejection of books already in the library\<close>

text \<open>
  Claim C6, as stated: \<^verbatim>\<open>create_download\<close> rejects with an already-in-library error
  exactly when the catalog record is marked downloaded and the book is on disk. It fails
  for a catalog record marked downloaded whose files are not in the library folder: the
  second guard of the handler rejects it all the same.
\<close>

theorem create_download_rejects_counterexample:
  "\<not> (already_in_library (fst (create_download example_env ''B001'' None downloaded_world)) \<longleftrightarrow>
       map_option downloaded (audiobooks downloaded_world ''B001'') = Some True \<and>
       library_contains_asin example_env ''B001'')"
  by (simp add: create_download_def get_system_user_def downloaded_world_def empty_world_def
      example_env_def example_book_def already_in_library_def chosen_region_def Let_def)

text \<open>
  Claim C6, amended. With a valid region and a book the catalog lookup finds,
  \<^verbatim>\<open>create_download\<close> rejects with an already-in-library error exactly when the tracked
  catalog record is marked downloaded (on disk or not), or the book is on disk in the
  library folder and no catalog record was tracked before the call. A tracked record that
  is not marked downloaded is re-queued even when the book is on disk. In every case that
  is not rejected the request exists afterwards with status \<open>pending\<close> and progress 0,
  and the returned job shows that.
\<close>

theorem create_download_rejects:
  assumes "audible_regions env (chosen_region env region_arg) \<noteq> None"
      and "get_book_by_asin env a (chosen_region env region_arg) = Some fetched"
  shows "(already_in_library (fst (create_download env a region_arg w)) \<longleftrightarrow>
            (\<exists>b. audiobooks w a = Some b \<and> downloaded b) \<or>
            (audiobooks w a = None \<and> library_contains_asin env a)) \<and>
         (\<not> already_in_library (fst (create_download env a region_arg w)) \<longrightarrow>
            (\<exists>job r. fst (create_download env a region_arg w) = Inr job \<and>
               job_status job = ''pending'' \<and> job_progress job = 0 \<and>
               get_request (snd (create_download env a region_arg w)) a = Some r \<and>
               processing_status r = ''pending'' \<and> download_progress r = 0))"
  using assms by (rule create_download_outcome)

theorem create_download_rejects_witness:
  "audible_regions example_env (chosen_region example_env None) \<noteq> None \<and>
   get_book_by_asin example_env ''B001'' (chosen_region example_env None) = Some example_book \<and>
   \<not> already_in_library (fst (create_download example_env ''B001'' None empty_world)) \<and>
   already_in_library (fst (create_download example_env ''B001'' None downloaded_world))"
proof -
  have h: "audible_regions example_env (chosen_region example_env None) \<noteq> None"
    "get_book_by_asin example_env ''B001'' (chosen_region example_env None) = Some example_book"
    by (simp_all add: example_env_def chosen_region_def)
  have "audiobooks empty_world ''B001'' = None" "\<not> library_contains_asin example_env ''B001''"
    "audiobooks downloaded_world ''B001'' = Some (example_book\<lparr>downloaded := True\<rparr>)"
    by (simp_all add: empty_world_def example_env_def downloaded_world_def)
  with h create_download_rejects[OF h, of empty_world]
    create_download_rejects[OF h, of downloaded_world]
  show ?thesis by simp
qed

subsection \<open>Torrents removed by \<^verbatim>\<open>delete_download\<close>\<close>

text \<open>
  Claim C10. With the client enabled and no call to it raising, \<^verbatim>\<open>delete_download\<close>
  issues one removal for every torrent of the client whose tags string contains
  \<open>asin:<asin>\<close> anywhere (as a substring, not as a whole tag), in order, and every such
  torrent is gone from the client afterwards. The witness deletes asin \<open>B001\<close> and
  thereby removes the torrent tagged \<open>asin:B0012\<close>.
\<close>

theorem delete_download_substring_match:
  assumes "qbit_enabled env" and "\<not> get_torrents_raises env"
      and "\<forall>h. \<not> delete_torrents_raises env h"
  shows "delete_calls (snd (delete_download env a df dq w)) =
           delete_calls w @
           map (\<lambda>t. [torrent_hash_of t])
             (filter (\<lambda>t. sublist (''asin:'' @ a) (tags_of t)) (client_torrents w)) \<and>
         (\<forall>t \<in> set (client_torrents w).
            sublist (''asin:'' @ a) (tags_of t) \<longrightarrow>
            t \<notin> set (client_torrents (snd (delete_download env a df dq w))))"
proof -
  have m: "torrent_matches a = (\<lambda>t. sublist (''asin:'' @ a) (tags_of t))"
    by (rule ext) (simp add: torrent_matches_def str_contains_sublist)
  have 1: "delete_calls (snd (delete_download env a df dq w)) =
           delete_calls w @
           map (\<lambda>t. [torrent_hash_of t]) (filter (torrent_matches a) (client_torrents w))"
    using assms by (simp add: delete_download_def Let_def delete_matching_calls delete_calls_emit)
  have 2: "client_torrents (snd (delete_download env a df dq w)) =
     filter (\<lambda>x. torrent_hash_of x \<notin>
                torrent_hash_of ` set (filter (torrent_matches a) (client_torrents w)))
       (client_torrents w)"
    using assms by (simp add: delete_download_def Let_def delete_matching_client emit_def)
  have 3: "t \<notin> set (client_torrents (snd (delete_download env a df dq w)))"
    if "t \<in> set (client_torrents w)" "torrent_matches a t" for t
    using that unfolding 2 by auto
  from 1 3 show ?thesis unfolding m by blast
qed

theorem delete_download_substring_match_witness:
  "qbit_enabled example_env \<and> \<not> get_torrents_raises example_env \<and>
   (\<forall>h. \<not> delete_torrents_raises example_env h) \<and>
   tags_of other_asin_torrent = ''narrarr,asin:B0012'' \<and>
   delete_calls (snd (delete_download example_env ''B001'' False None torrent_world)) =
     [[''abc123'']] \<and>
   other_asin_torrent \<notin>
     set (client_torrents (snd (delete_download example_env ''B001'' False None torrent_world)))"
proof -
  have h: "qbit_enabled example_env" "\<not> get_torrents_raises example_env"
     "\<forall>h. \<not> delete_torrents_raises example_env h"
    by (simp_all add: example_env_def)
  have c: "sublist (''asin:'' @ ''B001'') (tags_of other_asin_torrent)"
    by (simp add: other_asin_torrent_def tags_of_def str_contains_sublist[symmetric])
  have d: "delete_calls torrent_world = []" "client_torrents torrent_world = [other_asin_torrent]"
    by (simp_all add: torrent_world_def empty_world_def delete_calls_def map_filter_def)
  have f: "filter (\<lambda>t. sublist (''asin:'' @ ''B001'') (tags_of t)) [other_asin_torrent] =
             [other_asin_torrent]"
    using c by (simp only: filter.simps if_True)
  have t: "torrent_hash_of other_asin_torrent = ''abc123''"
      "tags_of other_asin_torrent = ''narrarr,asin:B0012''"
    by (simp_all add: other_asin_torrent_def tags_of_def)
  from delete_download_substring_match[OF h, of "''B001''" False None torrent_world]
  have "delete_calls (snd (delete_download example_env ''B001'' False None torrent_world)) =
        [] @ map (\<lambda>t. [torrent_hash_of t]) [other_asin_torrent]"
    and "other_asin_torrent \<notin>
      set (client_torrents (snd (delete_download example_env ''B001'' False None torrent_world)))"
    using c unfolding d f by simp_all
  then show ?thesis using h t by simp
qed

section \<open>Properties of the part labels\<close>

lemma str_nat_1: "n < 10 \<Longrightarrow> str_nat n = [digit_char n]"
  by (simp add: str_nat.simps)

lemma str_nat_2:
  "10 \<le> n \<Longrightarrow> n < 100 \<Longrightarrow> str_nat n = [digit_char (n div 10), digit_char (n mod 10)]"
  by (subst str_nat.simps) (simp add: str_nat_1)

lemma str_nat_3:
  assumes "100 \<le> n" "n < 1000"
  shows "str_nat n =
    [digit_char (n div 100), digit_char (n div 10 mod 10), digit_char (n mod 10)]"
proof -
  have "n div 10 div 10 = n div 100"
    by (simp add: div_mult2_eq[symmetric])
  with assms show ?thesis
    by (subst str_nat.simps) (simp add: str_nat_2)
qed

lemma length_str_nat_ge: "10 ^ k \<le> n \<Longrightarrow> k < length (str_nat n)"
proof (induction k arbitrary: n)
  case 0
  then show ?case by (subst str_nat.simps) simp
next
  case (Suc k)
  then have "10 ^ k \<le> n div 10" by simp
  from Suc.IH[OF this] have "k < length (str_nat (n div 10))" .
  moreover have "(10::nat) \<le> 10 ^ Suc k" by simp
  then have "\<not> n < 10" using Suc.prems by linarith
  ultimately show ?case by (subst str_nat.simps) simp
qed

lemma format_0d_2:
  "n < 100 \<Longrightarrow> format_0d 2 n = [digit_char (n div 10), digit_char (n mod 10)]"
  by (cases "n < 10") (simp_all add: format_0d_def str_nat_1 str_nat_2 digit_char_def)

lemma format_0d_3:
  assumes "n < 1000"
  shows "format_0d 3 n =
    [digit_char (n div 100), digit_char (n div 10 mod 10), digit_char (n mod 10)]"
proof -
  consider "n < 10" | "10 \<le> n" "n < 100" | "100 \<le> n"
    using assms by linarith
  then show ?thesis
  proof cases
    case 1
    then show ?thesis
      by (simp add: format_0d_def str_nat_1 digit_char_def numeral_2_eq_2)
  next
    case 2
    then show ?thesis
      by (simp add: format_0d_def str_nat_2 digit_char_def)
  next
    case 3
    then show ?thesis
      using assms by (simp add: format_0d_def str_nat_3)
  qed
qed

lemma format_0d_wide: "10 ^ w \<le> n \<Longrightarrow> format_0d w n = str_nat n"
  using length_str_nat_ge[of w n] by (simp add: format_0d_def)



section \<open>Properties of the processor\<close>

subsection \<open>Auxiliary facts\<close>

lemma commit_request_fields [simp]:
  "fs (commit_request br f w) = fs w"
  "audiobooks (commit_request br f w) = audiobooks w"
  "import_sessions (commit_request br f w) = import_sessions w"
  "request_logs (commit_request br f w) = request_logs w"
  "users (commit_request br f w) = users w"
  "effects (commit_request br f w) = effects w @ [CommitRequest (f br)]"
  "requests (commit_request br f w) = map (\<lambda>r. if same_request r br then f r else r) (requests w)"
  by (simp_all add: commit_request_def emit_def)

lemma log_request_event_fields [simp]:
  "fs (log_request_event a u m l w) = fs w"
  "audiobooks (log_request_event a u m l w) = audiobooks w"
  "import_sessions (log_request_event a u m l w) = import_sessions w"
  "effects (log_request_event a u m l w) = effects w"
  "users (log_request_event a u m l w) = users w"
  "request_logs (log_request_event a u m l w) =
     request_logs w @ [\<lparr>log_asin = a, log_username = u, log_message = m, log_level = l\<rparr>]"
  by (simp_all add: log_request_event_def)

lemma emit_fields [simp]:
  "fs (emit e w) = fs w"
  "audiobooks (emit e w) = audiobooks w"
  "import_sessions (emit e w) = import_sessions w"
  "request_logs (emit e w) = request_logs w"
  "users (emit e w) = users w"
  "effects (emit e w) = effects w @ [e]"
  by (simp_all add: emit_def)


subsection \<open>Fatal configuration errors\<close>

text \<open>
  Claim C7. When the catalog has no record for the asin of the request, or the library
  root is not configured, \<^verbatim>\<open>process_completed_download\<close> returns without raising, and the
  state afterwards is the state before with one error line of the application logger
  added: the request table, the catalog, the import sessions, the request log and the
  file system are what they were.
\<close>

theorem process_aborts_without_mutation:
  assumes "audiobooks w (req_asin br) = None \<or> \<not> is_set (library_path env)"
  shows "fst (process_completed_download env br download_path ds c cl w) = None \<and>
         (\<exists>msg. snd (process_completed_download env br download_path ds c cl w) =
                  w\<lparr>effects := effects w @ [LoggerError msg]\<rparr>) \<and>
         requests (snd (process_completed_download env br download_path ds c cl w)) = requests w \<and>
         audiobooks (snd (process_completed_download env br download_path ds c cl w)) = audiobooks w \<and>
         import_sessions (snd (process_completed_download env br download_path ds c cl w)) =
           import_sessions w \<and>
         request_logs (snd (process_completed_download env br download_path ds c cl w)) =
           request_logs w \<and>
         fs (snd (process_completed_download env br download_path ds c cl w)) = fs w"
  using assms
  by (auto simp: process_completed_download_def emit_def split: option.splits)

theorem process_aborts_without_mutation_witness:
  "audiobooks untracked_world (req_asin downloading_request) = None \<and>
   \<not> is_set (library_path (example_processor_env\<lparr>library_path := None\<rparr>)) \<and>
   process_completed_download example_processor_env downloading_request ''/dl'' False False None
     untracked_world =
     (None, untracked_world\<lparr>effects := [LoggerError ''Processor: Book not found in database'']\<rparr>) \<and>
   requests (snd (process_completed_download (example_processor_env\<lparr>library_path := None\<rparr>)
      downloading_request ''/dl'' False False None tracked_world)) = [downloading_request]"
proof -
  have a: "audiobooks untracked_world (req_asin downloading_request) = None"
    by (simp add: untracked_world_def empty_world_def downloading_request_def)
  have b: "\<not> is_set (library_path (example_processor_env\<lparr>library_path := None\<rparr>))"
    by (simp add: is_set_def)
  have c: "process_completed_download example_processor_env downloading_request ''/dl'' False False
     None untracked_world =
     (None, untracked_world\<lparr>effects := [LoggerError ''Processor: Book not found in database'']\<rparr>)"
    using a by (simp add: process_completed_download_def emit_def untracked_world_def empty_world_def)
  from process_aborts_without_mutation[of tracked_world downloading_request
      "example_processor_env\<lparr>library_path := None\<rparr>" "''/dl''" False False None] b
  have "requests (snd (process_completed_download (example_processor_env\<lparr>library_path := None\<rparr>)
      downloading_request ''/dl'' False False None tracked_world)) = requests tracked_world"
    by blast
  then show ?thesis using a b c by (simp add: tracked_world_def empty_world_def)
qed

subsection \<open>Completion of a collection download\<close>

lemma fold_max_ge: "a \<le> fold max xs (a::nat)" "x \<in> set xs \<Longrightarrow> x \<le> fold max xs a"
proof -
  have "Max (set (a # xs)) = fold max xs a" by (rule Max.set_eq_fold)
  moreover have "a \<le> Max (set (a # xs))" by simp
  moreover have "x \<in> set xs \<Longrightarrow> x \<le> Max (set (a # xs))" by simp
  ultimately show "a \<le> fold max xs a" "x \<in> set xs \<Longrightarrow> x \<le> fold max xs a" by simp_all
qed

lemma fresh_session_id_new: "s \<in> set ss \<Longrightarrow> session_id s \<noteq> fresh_session_id ss"
  using fold_max_ge(2)[of "session_id s" "map session_id ss" 0]
  by (auto simp: fresh_session_id_def)

lemma set_session_status_new:
  "sid = fresh_session_id ss \<Longrightarrow>
   set_session_status sid st (ss @ [\<lparr>session_id = sid, root_path = p, status = st0\<rparr>]) =
     ss @ [\<lparr>session_id = sid, root_path = p, status = st\<rparr>]"
  using fresh_session_id_new[of _ ss]
  by (auto simp: set_session_status_def intro!: map_idI)

lemma process_collection_outcome:
  shows "fst (process_collection br download_path cl w) = None"
    and "fs (snd (process_collection br download_path cl w)) = fs w"
    and "audiobooks (snd (process_collection br download_path cl w)) = audiobooks w"
    and "import_sessions (snd (process_collection br download_path cl w)) =
           import_sessions w @
             [\<lparr>session_id = fresh_session_id (import_sessions w), root_path = download_path,
               status = failed\<rparr>]"
    and "requests (snd (process_collection br download_path cl w)) =
           map (\<lambda>r. if same_request r br then r\<lparr>processing_status := ''completed''\<rparr> else r)
             (requests w)"
    and "map log_level (drop (length (request_logs w))
            (request_logs (snd (process_collection br download_path cl w)))) = [info, error]"
    and "effects (snd (process_collection br download_path cl w)) =
           effects w @ [LoggerError ''Processor: Collection scan failed'',
                        CommitRequest (br\<lparr>processing_status := ''completed''\<rparr>)]"
  by (simp_all add: process_collection_def Let_def set_session_status_new)

text \<open>
  Claim C2. The claim has the session set to \<open>completed\<close> when the scan collaborator
  succeeds. The code never gets there. With a catalog record and a configured library
  root, every call with \<open>collection = true\<close> creates the import session for the download
  path with status \<open>scanning\<close>, fails inside the \<^verbatim>\<open>try\<close> block before the scanner is
  constructed (the module \<^verbatim>\<open>aiohttp\<close> is a local name of the function that is not yet
  bound), and so takes the \<^verbatim>\<open>except\<close> branch: the session ends \<open>failed\<close>, the logger gets an
  error line, and the events logged are the start (info) and the failure (error). The
  rest is as the claim says: the request is marked \<open>completed\<close>, no file is copied and none
  is deleted, whatever the completion action, and the call returns without raising.
\<close>

theorem collection_scan_never_runs:
  assumes "audiobooks w (req_asin br) = Some book"
      and "is_set (library_path env)"
  shows "fst (process_completed_download env br download_path ds True cl w) = None \<and>
         import_sessions (snd (process_completed_download env br download_path ds True cl w)) =
           import_sessions w @
             [\<lparr>session_id = fresh_session_id (import_sessions w), root_path = download_path,
               status = failed\<rparr>] \<and>
         map log_level (drop (length (request_logs w))
            (request_logs (snd (process_completed_download env br download_path ds True cl w)))) =
           [info, error] \<and>
         effects (snd (process_completed_download env br download_path ds True cl w)) =
           effects w @ [LoggerError ''Processor: Collection scan failed'',
                        CommitRequest (br\<lparr>processing_status := ''completed''\<rparr>)] \<and>
         requests (snd (process_completed_download env br download_path ds True cl w)) =
           map (\<lambda>r. if same_request r br then r\<lparr>processing_status := ''completed''\<rparr> else r)
             (requests w) \<and>
         fs (snd (process_completed_download env br download_path ds True cl w)) = fs w \<and>
         audiobooks (snd (process_completed_download env br download_path ds True cl w)) =
           audiobooks w"
proof -
  have p: "process_completed_download env br download_path ds True cl w =
           process_collection br download_path cl w"
    using assms by (simp add: process_completed_download_def)
  show ?thesis unfolding p by (intro conjI) (rule process_collection_outcome)+
qed

theorem collection_scan_never_runs_witness:
  "audiobooks completed_world (req_asin downloading_request) = Some example_book \<and>
   is_set (library_path example_processor_env) \<and>
   qbit_complete_action example_processor_env = ''move'' \<and>
   fst (process_completed_download example_processor_env downloading_request ''/dl'' True True
     None completed_world) = None \<and>
   import_sessions (snd (process_completed_download example_processor_env downloading_request
     ''/dl'' True True None completed_world)) =
     [\<lparr>session_id = 1, root_path = ''/dl'', status = failed\<rparr>] \<and>
   requests (snd (process_completed_download example_processor_env downloading_request ''/dl''
     True True None completed_world)) =
     [downloading_request\<lparr>processing_status := ''completed''\<rparr>] \<and>
   fs (snd (process_completed_download example_processor_env downloading_request ''/dl'' True True
     None completed_world)) = download_fs"
proof -
  let ?res = "process_completed_download example_processor_env downloading_request ''/dl'' True
     True None completed_world"
  have a: "audiobooks completed_world (req_asin downloading_request) = Some example_book"
    by (simp add: completed_world_def tracked_world_def empty_world_def downloading_request_def)
  have b: "is_set (library_path example_processor_env)"
    "qbit_complete_action example_processor_env = ''move''"
    by (simp_all add: example_processor_env_def is_set_def)
  have i: "import_sessions completed_world = []" "requests completed_world = [downloading_request]"
    "fs completed_world = download_fs"
    by (simp_all add: completed_world_def tracked_world_def empty_world_def)
  from collection_scan_never_runs[OF a b(1), of "''/dl''" True None]
  have "fst ?res = None"
    "import_sessions (snd ?res) =
       import_sessions completed_world @
         [\<lparr>session_id = fresh_session_id (import_sessions completed_world), root_path = ''/dl'',
           status = failed\<rparr>]"
    "requests (snd ?res) =
       map (\<lambda>r. if same_request r downloading_request
                 then r\<lparr>processing_status := ''completed''\<rparr> else r)
           (requests completed_world)"
    "fs (snd ?res) = fs completed_world"
    by simp_all
  then show ?thesis using a b
    by (simp add: i fresh_session_id_def same_request_def)
qed

section \<open>Progress of the single-book branch\<close>

lemma progress_commits_emit:
  "progress_commits (emit e w) =
     progress_commits w @ (case committed_progress e of Some p \<Rightarrow> [p] | None \<Rightarrow> [])"
  by (simp add: progress_commits_def emit_def map_filter_def split: option.splits)

lemma progress_commits_with_fs [simp]: "progress_commits (with_fs w f) = progress_commits w"
  by (simp add: progress_commits_def with_fs_def)

lemma progress_commits_log [simp]:
  "progress_commits (log_request_event a u m l w) = progress_commits w"
  by (simp add: progress_commits_def)

lemma progress_commits_audiobooks [simp]:
  "progress_commits (w\<lparr>audiobooks := bs\<rparr>) = progress_commits w"
  by (simp add: progress_commits_def)

lemma progress_commits_commit [simp]:
  "progress_commits (commit_request br f w) = progress_commits w @ [download_progress (f br)]"
  by (simp add: progress_commits_def map_filter_def)

lemma requests_with_fs [simp]: "requests (with_fs w f) = requests w"
  by (simp add: with_fs_def)

lemma fs_with_fs [simp]: "fs (with_fs w f) = f"
  by (simp add: with_fs_def)

lemma copy_then_delete_keeps [simp]:
  "progress_commits (snd (copy_then_delete src dst d w)) = progress_commits w"
  "requests (snd (copy_then_delete src dst d w)) = requests w"
  by (simp_all add: copy_then_delete_def split: sum.splits)

lemma smart_copy_keeps_rows [simp]:
  "progress_commits (snd (smart_copy src dst h d w)) = progress_commits w"
  "requests (snd (smart_copy src dst h d w)) = requests w"
  by (simp_all add: smart_copy_def progress_commits_emit
      split: sum.splits prod.splits option.splits)

lemma save_cover_keeps [simp]:
  "progress_commits (save_cover env dest url w) = progress_commits w"
  "requests (save_cover env dest url w) = requests w"
  by (simp_all add: save_cover_def split: cover_outcome.splits sum.splits)

lemma enrich_from_mam_keeps:
  "enrich_from_mam env br book w = (m, book1, w1) \<Longrightarrow>
     progress_commits w1 = progress_commits w \<and> cover_image book1 = cover_image book \<and>
     fs w1 = fs w \<and> requests w1 = requests w"
  by (auto simp: enrich_from_mam_def Let_def
      split: option.splits if_splits mam_outcome.splits prod.splits)

text \<open>What a commit does to the rows of the request.\<close>

lemma rows_progress_requests: "requests w1 = requests w \<Longrightarrow> rows_progress w1 br = rows_progress w br"
  by (simp add: rows_progress_def)

lemma rows_progress_key:
  "req_asin b = req_asin br \<Longrightarrow> user_username b = user_username br \<Longrightarrow>
   rows_progress w b = rows_progress w br"
  by (simp add: rows_progress_def same_request_def)

lemma filter_map_if:
  assumes "\<And>r. P (f r) = P r"
  shows "filter P (map (\<lambda>r. if P r then f r else r) xs) = map f (filter P xs)"
  using assms by (induction xs) auto

lemma rows_progress_commit:
  assumes "req_asin b = req_asin br" "user_username b = user_username br"
    and "\<And>r. req_asin (f r) = req_asin r" "\<And>r. user_username (f r) = user_username r"
  shows "rows_progress (commit_request b f w) br =
         map (\<lambda>r. download_progress (f r)) (filter (\<lambda>r. same_request r br) (requests w))"
proof -
  have b: "same_request r b = same_request r br" for r
    using assms(1,2) by (simp add: same_request_def)
  have "filter (\<lambda>r. same_request r br) (requests (commit_request b f w)) =
        map f (filter (\<lambda>r. same_request r br) (requests w))"
    unfolding commit_request_fields b
    by (rule filter_map_if) (simp add: same_request_def assms)
  then show ?thesis by (simp add: rows_progress_def comp_def)
qed

lemma rows_progress_commit_set:
  assumes "req_asin b = req_asin br" "user_username b = user_username br"
  shows "rows_progress (commit_request b (\<lambda>r. r\<lparr>download_progress := v\<rparr>) w) br =
           replicate (length (rows_progress w br)) v"
    and "rows_progress (commit_request b (\<lambda>r. r\<lparr>processing_status := s, download_progress := v\<rparr>) w) br =
           replicate (length (rows_progress w br)) v"
    and "rows_progress (commit_request b (\<lambda>r. r\<lparr>processing_status := s\<rparr>) w) br = rows_progress w br"
  using assms
  by (simp_all add: rows_progress_commit) (simp_all add: rows_progress_def map_replicate_const)

lemma rows_progress_keeps [simp]:
  "rows_progress (with_fs w f) br = rows_progress w br"
  "rows_progress (emit e w) br = rows_progress w br"
  "rows_progress (log_request_event a u m l w) br = rows_progress w br"
  "rows_progress (w\<lparr>audiobooks := bs\<rparr>) br = rows_progress w br"
  "rows_progress (save_cover env dest url w) br = rows_progress w br"
  "rows_progress (snd (smart_copy src dst h d w)) br = rows_progress w br"
  by (simp_all add: rows_progress_def)

lemma copy_and_rename_progress:
  "copy_and_rename env book dest h d n xs br0 w = (r, br', w') \<Longrightarrow>
   req_asin br0 = req_asin br \<Longrightarrow> user_username br0 = user_username br \<Longrightarrow>
   \<exists>k \<le> length xs.
     progress_commits w' =
       progress_commits w @ map (\<lambda>(idx, p). copy_progress idx n) (take k xs) \<and>
     (r = None \<longrightarrow> k = length xs) \<and>
     req_asin br' = req_asin br \<and> user_username br' = user_username br \<and>
     rows_progress w' br =
       (if k = 0 then rows_progress w br
        else replicate (length (rows_progress w br)) (copy_progress (fst (xs ! (k - 1))) n))"
proof (induction xs arbitrary: br0 w)
  case Nil
  then show ?case by simp
next
  case (Cons x xs)
  obtain idx s_path where x: "x = (idx, s_path)" by (cases x)
  let ?d = "os_path_join dest (generate_audiobook_filename env book (file_pattern env)
              (process_part_str n idx) (str_lower (os_path_splitext_ext s_path)))"
  obtain e w1 where sc: "smart_copy s_path ?d h d w = (e, w1)"
    by (cases "smart_copy s_path ?d h d w")
  then have w1: "w1 = snd (smart_copy s_path ?d h d w)" by simp
  have pc: "progress_commits w1 = progress_commits w" and rq: "rows_progress w1 br = rows_progress w br"
    unfolding w1 by simp_all
  show ?case
  proof (cases e)
    case (Some err)
    with Cons.prems(1) x sc have "w' = w1" "r \<noteq> None" "br' = br0" by (auto simp: Let_def)
    with pc rq Cons.prems(2,3) show ?thesis
      by (intro exI[of _ 0]) simp
  next
    case None
    let ?f = "\<lambda>r. r\<lparr>download_progress := copy_progress idx n\<rparr>"
    let ?w2 = "commit_request br0 ?f w1"
    from None Cons.prems(1) x sc
    have "copy_and_rename env book dest h d n xs (?f br0) ?w2 = (r, br', w')"
      by (simp add: Let_def)
    from Cons.IH[OF this] Cons.prems(2,3) obtain k where k: "k \<le> length xs"
      "progress_commits w' =
         progress_commits ?w2 @ map (\<lambda>(idx, p). copy_progress idx n) (take k xs)"
      "r = None \<longrightarrow> k = length xs"
      "req_asin br' = req_asin br" "user_username br' = user_username br"
      "rows_progress w' br =
         (if k = 0 then rows_progress ?w2 br
          else replicate (length (rows_progress ?w2 br)) (copy_progress (fst (xs ! (k - 1))) n))"
      by auto
    have r2: "rows_progress ?w2 br = replicate (length (rows_progress w br)) (copy_progress idx n)"
      using rows_progress_commit_set(1)[OF Cons.prems(2,3), of "copy_progress idx n" w1] rq
      by simp
    have rows: "rows_progress w' br =
        replicate (length (rows_progress w br)) (copy_progress (fst ((x # xs) ! k)) n)"
    proof (cases "k = 0")
      case True
      with k(6) r2 x show ?thesis by simp
    next
      case False
      then have "(x # xs) ! k = xs ! (k - 1)" by (cases k) simp_all
      with False k(6) r2 show ?thesis by simp
    qed
    from k(1,2,3,4,5) pc x rows show ?thesis
      by (intro exI[of _ "Suc k"]) simp
  qed
qed

lemma finish_download_progress:
  assumes run: "finish_download env book dest br0 w = (r, w')"
      and key: "req_asin br0 = req_asin br" "user_username br0 = user_username br"
  shows "\<exists>F. progress_commits w' = progress_commits w @ F \<and>
       prefix F ([0.95] @ (if is_set (cover_image book) then [0.98] else []) @ [1.0]) \<and>
       (r = None \<longrightarrow> F = [0.95] @ (if is_set (cover_image book) then [0.98] else []) @ [1.0]) \<and>
       F \<noteq> [] \<and> rows_progress w' br = replicate (length (rows_progress w br)) (last F)"
proof -
  let ?L = "length (rows_progress w br)"
  let ?f1 = "\<lambda>r. r\<lparr>processing_status := ''generating_metadata'', download_progress := 0.95\<rparr>"
  let ?f2 = "\<lambda>r. r\<lparr>processing_status := ''saving_cover'', download_progress := 0.98\<rparr>"
  let ?f3 = "\<lambda>r. r\<lparr>processing_status := ''completed'', download_progress := 1.0\<rparr>"
  let ?w1 = "w\<lparr>audiobooks := (audiobooks w)(book_asin book \<mapsto> book\<lparr>downloaded := True\<rparr>)\<rparr>"
  let ?w2 = "commit_request br0 ?f1
               (log_request_event (req_asin br0) (user_username br0)
                  ''Generating metadata files.'' info ?w1)"
  have r2: "rows_progress ?w2 br = replicate ?L 0.95"
    using rows_progress_commit_set(2)[OF key, where s = "''generating_metadata''" and v = "0.95"
        and w = "log_request_event (req_asin br0) (user_username br0)
                  ''Generating metadata files.'' info ?w1"]
    by simp
  have p2: "progress_commits ?w2 = progress_commits w @ [0.95]" by simp
  have key1: "req_asin (?f1 br0) = req_asin br" "user_username (?f1 br0) = user_username br"
    and key2: "req_asin (?f2 (?f1 br0)) = req_asin br"
      "user_username (?f2 (?f1 br0)) = user_username br"
    using key by simp_all
  show ?thesis
  proof (cases "abs_metadata_raises env")
    case True
    with run have w': "w' = emit (GenerateAbsMetadata dest) ?w2" "r \<noteq> None"
      by (auto simp: finish_download_def Let_def)
    show ?thesis unfolding w'(1) using r2 w'(2)
      by (intro exI[of _ "[0.95]"]) (simp add: progress_commits_emit)
  next
    case a: False
    let ?w4 = "emit (GenerateOpfMetadata dest) (emit (GenerateAbsMetadata dest) ?w2)"
    have r4: "rows_progress ?w4 br = replicate ?L 0.95" using r2 by simp
    have p4: "progress_commits ?w4 = progress_commits w @ [0.95]"
      by (simp add: progress_commits_emit)
    show ?thesis
    proof (cases "opf_metadata_raises env")
      case True
      with run a have w': "w' = ?w4" "r \<noteq> None"
        by (auto simp: finish_download_def Let_def)
      show ?thesis unfolding w'(1) using r4 p4 w'(2)
        by (intro exI[of _ "[0.95]"]) simp
    next
      case o: False
      show ?thesis
      proof (cases "is_set (cover_image book)")
        case c: True
        let ?w5a = "commit_request (?f1 br0) ?f2
                      (log_request_event (req_asin br0) (user_username br0)
                         ''Saving cover image.'' info ?w4)"
        let ?w5 = "save_cover env dest (the (cover_image book)) ?w5a"
        let ?w6 = "commit_request (?f2 (?f1 br0)) ?f3
                     (log_request_event (req_asin br0) (user_username br0)
                        ''Import completed.'' info ?w5)"
        from run a o c have w': "w' = ?w6" "r = None"
          by (simp_all add: finish_download_def Let_def)
        have r5: "rows_progress ?w5 br = replicate ?L 0.98"
          using rows_progress_commit_set(2)[OF key1, where s = "''saving_cover''" and v = "0.98"
              and w = "log_request_event (req_asin br0) (user_username br0)
                         ''Saving cover image.'' info ?w4"] r4
          by simp
        have r6: "rows_progress ?w6 br = replicate ?L 1"
          using rows_progress_commit_set(2)[OF key2, where s = "''completed''" and v = 1
              and w = "log_request_event (req_asin br0) (user_username br0)
                        ''Import completed.'' info ?w5"] r5
          by simp
        have p6: "progress_commits ?w6 = progress_commits w @ [0.95, 0.98, 1]"
          using p4 by simp
        show ?thesis unfolding w'(1) using r6 p6 c w'(2)
          by (intro exI[of _ "[0.95, 0.98, 1]"]) simp
      next
        case c: False
        let ?w6 = "commit_request (?f1 br0) ?f3
                     (log_request_event (req_asin br0) (user_username br0)
                        ''Import completed.'' info ?w4)"
        from run a o c have w': "w' = ?w6" "r = None"
          by (simp_all add: finish_download_def Let_def)
        have r6: "rows_progress ?w6 br = replicate ?L 1"
          using rows_progress_commit_set(2)[OF key1, where s = "''completed''" and v = 1
              and w = "log_request_event (req_asin br0) (user_username br0)
                        ''Import completed.'' info ?w4"] r4
          by simp
        have p6: "progress_commits ?w6 = progress_commits w @ [0.95, 1]"
          using p4 by simp
        show ?thesis unfolding w'(1) using r6 p6 c w'(2)
          by (intro exI[of _ "[0.95, 1]"]) simp
      qed
    qed
  qed
qed

subsection \<open>A run on two files\<close>

lemmas fs_eval = os_makedirs.simps makedirs_split_def os_path_basename_def os_path_dirname_def
  os_path_exists_def os_path_isdir_def lookup_def resolve_def locate_def components_def
  is_absolute_def mkdir_exist_ok_def os_mkdir_def node_at_def set_node_def del_node_def
  os_link_def shutil_copy2_def os_remove_def file_content_def

lemmas path_eval = os_path_abspath_def os_path_normpath_def initial_slashes_def norm_comp_def
  os_path_join_def os_getcwd_def is_absolute_def

lemma ex_dest: "dest_path_of example_processor_env example_book ''/lib'' = ''/lib/X/Y (2020)''"
  by (simp add: dest_path_of_def example_processor_env_def example_book_def default_folder_def
      os_path_join_def is_absolute_def str_nat.simps digit_char_def)

lemma ex_mk: "os_makedirs ''/lib/X/Y (2020)'' download_fs = (None, organized_fs)"
  by (simp add: fs_eval download_fs_def organized_fs_def)

lemma ex_audio: "audio_files_to_process example_processor_env organized_fs
   ''/dl/a.mp3|/dl/b.mp3'' = [''/dl/a.mp3'', ''/dl/b.mp3'']"
  by (simp add: audio_files_to_process_def fs_eval download_fs_def organized_fs_def)

lemma ex_abs1: "os_path_abspath [] ''/dl/a.mp3'' \<noteq> os_path_abspath [] ''/lib/X/Y (2020)/Y Part 01.mp3''"
  by (simp add: path_eval)

lemma ex_abs2: "os_path_abspath [] ''/dl/b.mp3'' \<noteq> os_path_abspath [] ''/lib/X/Y (2020)/Y Part 02.mp3''"
  by (simp add: path_eval)

lemma ex_mk1: "os_makedirs (os_path_dirname ''/lib/X/Y (2020)/Y Part 01.mp3'') organized_fs = (None, organized_fs)"
  by (simp add: fs_eval download_fs_def organized_fs_def)

lemma ex_copy_a:
  "copy_then_delete ''/dl/a.mp3'' ''/lib/X/Y (2020)/Y Part 01.mp3'' True (with_fs w organized_fs) =
     (None, with_fs w moved_a_fs)"
  by (simp add: copy_then_delete_def with_fs_def fs_eval organized_fs_def download_fs_def
      moved_a_fs_def)

lemma ex_move_a:
  assumes "fs w = organized_fs"
  shows "smart_copy ''/dl/a.mp3'' ''/lib/X/Y (2020)/Y Part 01.mp3'' False True w =
     (None, with_fs w moved_a_fs)"
proof -
  have c: "cwd (fs w) = []" using assms by (simp add: organized_fs_def download_fs_def)
  show ?thesis
    unfolding smart_copy_def c using ex_abs1 ex_mk1 ex_copy_a[of w] assms by simp
qed

lemma ex_mk2: "os_makedirs (os_path_dirname ''/lib/X/Y (2020)/Y Part 02.mp3'') moved_a_fs = (None, moved_a_fs)"
  by (simp add: fs_eval moved_a_fs_def)

lemma ex_copy_b:
  "copy_then_delete ''/dl/b.mp3'' ''/lib/X/Y (2020)/Y Part 02.mp3'' True (with_fs w moved_a_fs) =
     (None, with_fs w moved_b_fs)"
  by (simp add: copy_then_delete_def with_fs_def fs_eval moved_a_fs_def moved_b_fs_def)

lemma ex_move_b:
  assumes "fs w = moved_a_fs"
  shows "smart_copy ''/dl/b.mp3'' ''/lib/X/Y (2020)/Y Part 02.mp3'' False True w =
     (None, with_fs w moved_b_fs)"
proof -
  have c: "cwd (fs w) = []" using assms by (simp add: moved_a_fs_def)
  show ?thesis
    unfolding smart_copy_def c using ex_abs2 ex_mk2 ex_copy_b[of w] assms by simp
qed

lemma ex_names:
  "os_path_join ''/lib/X/Y (2020)''
     (generate_audiobook_filename example_processor_env example_book
        (file_pattern example_processor_env) (process_part_str 2 (Suc 0))
        (str_lower (os_path_splitext_ext ''/dl/a.mp3''))) = ''/lib/X/Y (2020)/Y Part 01.mp3''"
  "os_path_join ''/lib/X/Y (2020)''
     (generate_audiobook_filename example_processor_env example_book
        (file_pattern example_processor_env) (process_part_str 2 2)
        (str_lower (os_path_splitext_ext ''/dl/b.mp3''))) = ''/lib/X/Y (2020)/Y Part 02.mp3''"
  by (simp_all add: example_processor_env_def example_book_def process_part_str_def
      process_padding_def format_0d_def str_nat.simps digit_char_def os_path_splitext_ext_def
      os_path_basename_def str_lower_def char_lower_def os_path_join_def is_absolute_def)

lemma ex_loop:
  assumes "fs w = organized_fs"
  shows "fst (copy_and_rename example_processor_env example_book ''/lib/X/Y (2020)'' False True 2
            [(Suc 0, ''/dl/a.mp3''), (2, ''/dl/b.mp3'')] br w) = None"
proof -
  let ?f1 = "\<lambda>r. r\<lparr>download_progress := copy_progress (Suc 0) 2\<rparr>"
  have 1: "smart_copy ''/dl/a.mp3'' ''/lib/X/Y (2020)/Y Part 01.mp3'' False True w =
     (None, with_fs w moved_a_fs)"
    using assms by (rule ex_move_a)
  have "fs (commit_request br ?f1 (with_fs w moved_a_fs)) = moved_a_fs"
    by (simp add: with_fs_def)
  then have 2: "smart_copy ''/dl/b.mp3'' ''/lib/X/Y (2020)/Y Part 02.mp3'' False True
      (commit_request br ?f1 (with_fs w moved_a_fs)) =
     (None, with_fs (commit_request br ?f1 (with_fs w moved_a_fs)) moved_b_fs)"
    by (rule ex_move_b)
  show ?thesis by (simp add: ex_names 1 2 Let_def)
qed

lemma finish_download_returns:
  "\<not> abs_metadata_raises env \<Longrightarrow> \<not> opf_metadata_raises env \<Longrightarrow>
   fst (finish_download env book dest br w) = None"
  by (simp add: finish_download_def Let_def split: prod.splits)

lemma ex_loop_audio:
  assumes "fs w = organized_fs"
  shows "fst (copy_and_rename example_processor_env example_book ''/lib/X/Y (2020)'' False True
            (length [''/dl/a.mp3'', ''/dl/b.mp3'']) (enumerate1 [''/dl/a.mp3'', ''/dl/b.mp3''])
            br w) = None"
proof -
  have "enumerate1 [''/dl/a.mp3'', ''/dl/b.mp3''] = [(Suc 0, ''/dl/a.mp3''), (2, ''/dl/b.mp3'')]"
    by (simp add: enumerate1_def upt_rec)
  moreover have "length [''/dl/a.mp3'', ''/dl/b.mp3''] = 2" by simp
  ultimately show ?thesis using ex_loop[OF assms, of br] by (simp only:)
qed

lemma ex_run:
  assumes "fs w = download_fs" "audiobooks w (req_asin br) = Some example_book"
  shows "fst (process_completed_download example_processor_env br
          ''/dl/a.mp3|/dl/b.mp3'' False False None w) = None"
proof -
  let ?audio = "[''/dl/a.mp3'', ''/dl/b.mp3'']"
  let ?f0 = "\<lambda>r. r\<lparr>processing_status := ''organizing_files''\<rparr>"
  let ?w1 = "commit_request br ?f0
               (log_request_event (req_asin br) (user_username br)
                  ''Organizing and renaming files.'' info
                  (emit (LoggerInfo ''Processor: Organizing and renaming files'')
                     (with_fs w organized_fs)))"
  have e: "library_path example_processor_env = Some ''/lib''"
    "qbit_complete_action example_processor_env = ''move''"
    "\<not> abs_metadata_raises example_processor_env" "\<not> opf_metadata_raises example_processor_env"
    by (simp_all add: example_processor_env_def)
  have f1: "fs ?w1 = organized_fs" by (simp add: with_fs_def)
  obtain mam book1 w2 where
    en: "enrich_from_mam example_processor_env (?f0 br) example_book ?w1 = (mam, book1, w2)"
    by (cases "enrich_from_mam example_processor_env (?f0 br) example_book ?w1")
  from enrich_from_mam_keeps[OF en] f1 have f2: "fs w2 = organized_fs" by simp
  obtain r br2 w3 where
    cp: "copy_and_rename example_processor_env book1 ''/lib/X/Y (2020)'' False True
            (length ?audio) (enumerate1 ?audio) (?f0 br) w2 = (r, br2, w3)"
    by (cases "copy_and_rename example_processor_env book1 ''/lib/X/Y (2020)'' False True
            (length ?audio) (enumerate1 ?audio) (?f0 br) w2")
  have b1: "book1 = example_book"
    using en by (auto simp: enrich_from_mam_def example_processor_env_def
        split: option.splits if_splits)
  from cp ex_loop_audio[OF f2, of "?f0 br"] have r: "r = None" by (simp only: b1 fst_conv)
  have "process_single example_processor_env example_book ''/lib'' br ''/dl/a.mp3|/dl/b.mp3''
          False False w =
        (case copy_and_rename example_processor_env book1 ''/lib/X/Y (2020)'' False True
            (length ?audio) (enumerate1 ?audio) (?f0 br) w2 of
           (Some e, br2, w3) \<Rightarrow> (Some e, w3)
         | (None, br2, w3) \<Rightarrow>
             finish_download example_processor_env book1 ''/lib/X/Y (2020)'' br2 w3)"
    by (simp add: process_single_def ex_dest assms(1) ex_mk Let_def f1 ex_audio en e
        del: copy_and_rename.simps)
  also have "\<dots> = finish_download example_processor_env book1 ''/lib/X/Y (2020)'' br2 w3"
    unfolding cp r by simp
  finally show ?thesis
    using assms(2) e by (simp add: process_completed_download_def is_set_def finish_download_returns)
qed

subsection \<open>The schedule\<close>

lemma copy_progress_bounds:
  assumes "1 \<le> i" "i \<le> n"
  shows "0.9 \<le> copy_progress i n" "copy_progress i n \<le> 0.92"
proof -
  from assms have n: "0 < real n" by simp
  have "0 \<le> real i / real n" by simp
  moreover have "real i / real n \<le> 1" using assms n by (simp add: divide_le_eq_1)
  ultimately show "0.9 \<le> copy_progress i n" "copy_progress i n \<le> 0.92"
    by (simp_all add: copy_progress_def)
qed

lemma copy_progress_mono: "i \<le> j \<Longrightarrow> copy_progress i n \<le> copy_progress j n"
  by (simp add: copy_progress_def divide_right_mono)

lemma copy_progress_last: "0 < n \<Longrightarrow> copy_progress n n = 0.92"
  by (simp add: copy_progress_def)

lemma sorted_copy_values: "sorted (map (\<lambda>idx. copy_progress idx n) [1 ..< Suc k])"
  by (auto simp: sorted_iff_nth_mono copy_progress_mono simp del: upt_Suc)

lemma progress_schedule_alt:
  "progress_schedule n c =
     map (\<lambda>idx. copy_progress idx n) [1 ..< Suc n] @
     [0.95] @ (if c then [0.98] else []) @ [1.0]"
  by (simp add: progress_schedule_def copy_progress_def)

lemma progress_schedule_bounds:
  "x \<in> set (progress_schedule n c) \<Longrightarrow> 0.9 \<le> x \<and> x \<le> 1"
proof -
  assume "x \<in> set (progress_schedule n c)"
  then consider i where "1 \<le> i" "i \<le> n" "x = copy_progress i n" | "x = 0.95" | "x = 0.98" | "x = 1"
    unfolding progress_schedule_alt by (auto split: if_splits simp del: upt_Suc)
  then show ?thesis
  proof cases
    case 1
    with copy_progress_bounds[of i n] show ?thesis by simp
  qed simp_all
qed

lemma sorted_progress_schedule: "sorted (progress_schedule n c)"
proof -
  have "\<forall>x \<in> set (map (\<lambda>idx. copy_progress idx n) [1 ..< Suc n]). x \<le> 0.92"
    using copy_progress_bounds(2) by (auto simp del: upt_Suc)
  then have "\<forall>x \<in> set (map (\<lambda>idx. copy_progress idx n) [1 ..< Suc n]).
        \<forall>y \<in> set ([0.95] @ (if c then [0.98] else []) @ [1.0]). x \<le> y"
    by (auto simp del: upt_Suc)
  moreover have "sorted ([0.95] @ (if c then [0.98] else []) @ [1.0::real])" by simp
  ultimately show ?thesis
    unfolding progress_schedule_alt using sorted_copy_values[of n n]
    by (simp only: sorted_append) simp
qed

lemma enumerate1_take:
  "k \<le> length xs \<Longrightarrow> map (\<lambda>(idx, p). g idx) (take k (enumerate1 xs)) = map g [1 ..< Suc k]"
proof -
  assume k: "k \<le> length xs"
  have "map (\<lambda>(idx, p). g idx) (take k (enumerate1 xs)) = map g (map fst (take k (enumerate1 xs)))"
    by (simp add: case_prod_unfold)
  also have "map fst (take k (enumerate1 xs)) = take k (map fst (enumerate1 xs))"
    by (simp add: take_map)
  also have "map fst (enumerate1 xs) = [1 ..< Suc (length xs)]"
    by (simp add: enumerate1_def del: upt_Suc)
  also have "take k [1 ..< Suc (length xs)] = [1 ..< Suc k]"
    using k by (simp add: take_upt del: upt_Suc)
  finally show ?thesis .
qed

lemma length_enumerate1 [simp]: "length (enumerate1 xs) = length xs"
  by (simp add: enumerate1_def del: upt_Suc)

lemma prefix_sorted: "prefix xs ys \<Longrightarrow> sorted ys \<Longrightarrow> sorted xs"
  by (auto simp: prefix_def sorted_append)


lemma enumerate1_nth: "k < length xs \<Longrightarrow> fst (enumerate1 xs ! k) = Suc k"
  by (simp add: enumerate1_def del: upt_Suc)

lemma last_copy_values: "0 < k \<Longrightarrow> last (map g [Suc 0 ..< Suc k]) = g k"
  by (simp add: last_map del: upt_Suc)

lemma process_single_progress:
  assumes run: "process_single env book lib_root br dp dsarg coll w = (r, w')"
      and n: "n = length (audio_files_to_process env
                  (snd (os_makedirs (dest_path_of env book lib_root) (fs w))) dp)"
  shows "\<exists>T. (progress_commits w' = progress_commits w @ download_progress br # T \<or>
              r \<noteq> None \<and> T = [] \<and> progress_commits w' = progress_commits w) \<and>
             prefix T (progress_schedule n (is_set (cover_image book))) \<and>
             (r = None \<longrightarrow>
                progress_commits w' = progress_commits w @ download_progress br # T \<and>
                T = progress_schedule n (is_set (cover_image book))) \<and>
             rows_progress w' br =
               (if T = [] then rows_progress w br
                else replicate (length (rows_progress w br)) (last T))"
proof -
  let ?dest = "dest_path_of env book lib_root"
  obtain e0 fs1 where mk: "os_makedirs ?dest (fs w) = (e0, fs1)"
    by (cases "os_makedirs ?dest (fs w)")
  let ?c = "is_set (cover_image book)"
  show ?thesis
  proof (cases e0)
    case (Some err)
    with run mk have "r = Some (OSFailure err)" "w' = with_fs w fs1"
      by (simp_all add: process_single_def)
    then show ?thesis by (intro exI[of _ "[]"]) simp
  next
    case None
    let ?f0 = "\<lambda>r. r\<lparr>processing_status := ''organizing_files''\<rparr>"
    let ?w0 = "log_request_event (req_asin br) (user_username br)
                  ''Organizing and renaming files.'' info
                  (emit (LoggerInfo ''Processor: Organizing and renaming files'') (with_fs w fs1))"
    let ?w1 = "commit_request br ?f0 ?w0"
    let ?audio = "audio_files_to_process env fs1 dp"
    let ?g = "\<lambda>idx. copy_progress idx n"
    let ?L = "length (rows_progress w br)"
    from n mk have n': "n = length ?audio" by simp
    have fs1: "fs ?w1 = fs1" by (simp add: with_fs_def)
    have p1: "progress_commits ?w1 = progress_commits w @ [download_progress br]"
      by (simp add: progress_commits_emit)
    have q1: "rows_progress ?w1 br = rows_progress w br"
      using rows_progress_commit_set(3)[of br br "''organizing_files''" ?w0] by simp
    obtain mam book1 w2 where en: "enrich_from_mam env (?f0 br) book ?w1 = (mam, book1, w2)"
      by (cases "enrich_from_mam env (?f0 br) book ?w1")
    from enrich_from_mam_keeps[OF en]
    have p2: "progress_commits w2 = progress_commits ?w1"
      and cv: "cover_image book1 = cover_image book"
      and q2: "requests w2 = requests ?w1"
      by simp_all
    from rows_progress_requests[OF q2, of br] q1
    have r2: "rows_progress w2 br = rows_progress w br" by simp
    let ?h = "qbit_complete_action env = ''hardlink''"
    let ?d = "if coll then False else dsarg \<or> qbit_complete_action env = ''move''"
    obtain e br2 w3 where
      cp: "copy_and_rename env book1 ?dest ?h ?d n (enumerate1 ?audio) (?f0 br) w2 = (e, br2, w3)"
      by (cases "copy_and_rename env book1 ?dest ?h ?d n (enumerate1 ?audio) (?f0 br) w2")
    from copy_and_rename_progress[OF cp, of br] obtain k where k: "k \<le> n"
      "progress_commits w3 =
         progress_commits w2 @ map (\<lambda>(idx, p). ?g idx) (take k (enumerate1 ?audio))"
      "e = None \<longrightarrow> k = n"
      "req_asin br2 = req_asin br" "user_username br2 = user_username br"
      "rows_progress w3 br =
         (if k = 0 then rows_progress w2 br
          else replicate (length (rows_progress w2 br))
                 (copy_progress (fst (enumerate1 ?audio ! (k - 1))) n))"
      using n' by auto
    from k(1,2) n' have p3: "progress_commits w3 = progress_commits w2 @ map ?g [1 ..< Suc k]"
      by (simp add: enumerate1_take)
    have r3: "rows_progress w3 br =
        (if k = 0 then rows_progress w br else replicate ?L (?g k))"
    proof (cases "k = 0")
      case True
      with k(6) r2 show ?thesis by simp
    next
      case False
      with k(1) n' have "fst (enumerate1 ?audio ! (k - 1)) = k"
        by (simp add: enumerate1_nth)
      with False k(6) r2 show ?thesis by simp
    qed
    have l3: "length (rows_progress w3 br) = ?L" using r3 by (simp split: if_splits)
    have lk: "map ?g [1 ..< Suc k] = [] \<longleftrightarrow> k = 0" by simp
    have pk: "prefix (map ?g [1 ..< Suc k]) (map ?g [1 ..< Suc n])"
    proof -
      from k(1) obtain m where m: "n = k + m" by (auto simp: le_iff_add)
      have "[1 ..< Suc k + m] = [1 ..< Suc k] @ [Suc k ..< Suc k + m]"
        by (rule upt_add_eq_append) simp
      with m have "[1 ..< Suc n] = [1 ..< Suc k] @ [Suc k ..< Suc n]"
        by simp
      then have "map ?g [1 ..< Suc n] = map ?g [1 ..< Suc k] @ map ?g [Suc k ..< Suc n]"
        by (metis map_append)
      then show ?thesis by (metis prefixI)
    qed
    show ?thesis
    proof (cases e)
      case (Some err)
      with run mk None en cp fs1 n' have "r = Some err" "w' = w3"
        by (simp_all add: process_single_def Let_def)
      moreover have "rows_progress w3 br =
          (if map ?g [1 ..< Suc k] = [] then rows_progress w br
           else replicate ?L (last (map ?g [1 ..< Suc k])))"
        unfolding r3 lk by (cases "k = 0") (simp_all add: last_copy_values del: upt_Suc)
      ultimately show ?thesis using p1 p2 p3 pk
        by (intro exI[of _ "map ?g [1 ..< Suc k]"])
          (simp add: progress_schedule_alt del: upt_Suc)
    next
      case e: None
      with run mk None en cp fs1 n' have fin: "finish_download env book1 ?dest br2 w3 = (r, w')"
        by (simp add: process_single_def Let_def)
      from finish_download_progress[OF fin k(4,5)] cv obtain F where F:
        "progress_commits w' = progress_commits w3 @ F"
        "prefix F ([0.95] @ (if ?c then [0.98] else []) @ [1.0])"
        "r = None \<longrightarrow> F = [0.95] @ (if ?c then [0.98] else []) @ [1.0]"
        "F \<noteq> []" "rows_progress w' br = replicate (length (rows_progress w3 br)) (last F)"
        by auto
      from e k(3) have kn: "k = n" by simp
      from F(2) have "prefix (map ?g [1 ..< Suc n] @ F) (progress_schedule n ?c)"
        unfolding progress_schedule_alt by (simp only: same_prefix_prefix)
      moreover have "rows_progress w' br =
           (if map ?g [1 ..< Suc n] @ F = [] then rows_progress w br
            else replicate ?L (last (map ?g [1 ..< Suc n] @ F)))"
        using F(4,5) l3 by simp
      ultimately show ?thesis using F(1,3) p1 p2 p3 kn
        by (intro exI[of _ "map ?g [1 ..< Suc n] @ F"])
          (simp add: progress_schedule_alt del: upt_Suc)
    qed
  qed
qed

subsection \<open>The committed values\<close>



end
